theory Spec2Isabelle
  imports Main "HOL-Library.Word"
begin

unbundle bit_operations_syntax

section \<open>Data model of siggrep.cpp\<close>

text \<open>
  The program is built around \<^verbatim>\<open>wmain\<close>, so \<^verbatim>\<open>wchar_t\<close> is the unsigned 16-bit
  code unit of that platform. A C string is modelled by the list of code units stored at
  the pointer; the terminating zero is implicit at the end of the list, and a zero inside
  the list terminates the string early, as it would in memory.
\<close>

type_synonym u8 = "8 word"
type_synonym u16 = "16 word"
type_synonym s32 = "32 word"
type_synonym wchar = "16 word"
type_synonym wstring = "wchar list"

text \<open>\<^verbatim>\<open>using Signature = std::vector<std::pair<uint8_t, bool>>\<close>\<close>

type_synonym cell = "u8 \<times> bool"
type_synonym Signature = "cell list"

text \<open>
  \<^verbatim>\<open>struct Arguments { std::wstring file; std::vector<Signature> sigs; }\<close>
  (the field \<^verbatim>\<open>file\<close> is written \<open>file'\<close>: the plain name is reserved).
\<close>

record Arguments =
  file' :: wstring
  sigs :: "Signature list"

text \<open>
  The characters of a C string up to its terminator: what \<^verbatim>\<open>std::wstring{ arg }\<close>,
  \<^verbatim>\<open>wcscmp\<close> and the loop \<^verbatim>\<open>while (const auto c = *str++)\<close> see.
\<close>

definition wstring_of :: "wchar list \<Rightarrow> wstring" where
  "wstring_of arg = takeWhile (\<lambda>c. c \<noteq> 0) arg"

text \<open>A wide string literal \<^verbatim>\<open>L"..."\<close> of ASCII characters.\<close>

definition L :: "string \<Rightarrow> wstring" where
  "L s = map (\<lambda>c. of_nat (of_char c)) s"

section \<open>Nibble decoder\<close>

text \<open>
  \<^verbatim>\<open>template <typename Char> uint8_t unhex(Char ch)\<close>, instantiated at \<^verbatim>\<open>wchar_t\<close>.
  The three \<^verbatim>\<open>TEST_RANGE\<close> lines are written out in the order of the source.
\<close>

definition unhex :: "wchar \<Rightarrow> u8" where
  "unhex ch =
     (if ch \<ge> 0x80 \<or> ch \<le> 0 then 0xFF
      else let c = (ucast ch :: u8) in
        if c \<ge> 0x30 \<and> c \<le> 0x39 then c - 0x30 + 0x0
        else if c \<ge> 0x61 \<and> c \<le> 0x66 then c - 0x61 + 0xa
        else if c \<ge> 0x41 \<and> c \<le> 0x46 then c - 0x41 + 0xA
        else 0xFF)"

text \<open>
  \<^verbatim>\<open>isspace\<close> of the C library in the "C" locale: space, and the five control
  characters from horizontal tab (9) to carriage return (13). The function is called with
  a \<^verbatim>\<open>wchar_t\<close>; for a value above 255 the C standard leaves the call undefined and the
  runtime of the platform answers 0, which is what the model does.
\<close>

definition isspace :: "wchar \<Rightarrow> bool" where
  "isspace c = (c = 0x20 \<or> (0x09 \<le> c \<and> c \<le> 0x0D))"

section \<open>Hex pattern compiler: parse_sig\<close>

datatype State = AfterSpace | AfterFirst | AfterSecond | AfterWildcard

text \<open>
  The loop of \<^verbatim>\<open>parse_sig\<close> with its local variables \<^verbatim>\<open>state\<close>, \<^verbatim>\<open>nibble\<close> and
  \<^verbatim>\<open>sig\<close> as arguments. \<^verbatim>\<open>return {}\<close> is the empty list. The loop ends at the end of
  the list or at a zero code unit; then the test on \<^verbatim>\<open>AfterFirst\<close> after the loop runs.
\<close>

fun parse_sig_loop :: "wchar list \<Rightarrow> State \<Rightarrow> u8 \<Rightarrow> Signature \<Rightarrow> Signature" where
  "parse_sig_loop [] state nibble sig = (if state = AfterFirst then [] else sig)"
| "parse_sig_loop (c # str) state nibble sig =
     (if c = 0 then (if state = AfterFirst then [] else sig)
      else case state of
        AfterSpace \<Rightarrow>
          (let nibble = unhex c in
           if isspace c then parse_sig_loop str state nibble sig
           else if c = 0x3F then parse_sig_loop str AfterWildcard nibble (sig @ [(0, False)])
           else if nibble \<noteq> 0xFF then parse_sig_loop str AfterFirst nibble sig
           else [])
      | AfterFirst \<Rightarrow>
          (let second = unhex c in
           if second \<noteq> 0xFF
           then parse_sig_loop str AfterSecond nibble (sig @ [(push_bit 4 nibble OR second, True)])
           else [])
      | AfterSecond \<Rightarrow>
          (if isspace c then parse_sig_loop str AfterSpace nibble sig
           else [])
      | AfterWildcard \<Rightarrow>
          (if isspace c then parse_sig_loop str AfterSpace nibble sig
           else if c = 0x3F then parse_sig_loop str state nibble sig
           else []))"

definition parse_sig :: "wchar list \<Rightarrow> Signature" where
  "parse_sig str = parse_sig_loop str AfterSpace 0 []"

section \<open>Matcher: count_sig\<close>

text \<open>The lambda passed to \<^verbatim>\<open>std::search\<close>.\<close>

definition sig_pred :: "u8 \<Rightarrow> cell \<Rightarrow> bool" where
  "sig_pred cur cur_pattern = ((\<not> snd cur_pattern) \<or> cur = fst cur_pattern)"

text \<open>
  \<^verbatim>\<open>std::search(first, last, s_first, s_last, pred)\<close> of the C++ standard library, by its
  contract: the first position in \<^verbatim>\<open>[first, last)\<close> at which the whole pattern matches
  inside the range, \<^verbatim>\<open>first\<close> when the pattern is empty, \<^verbatim>\<open>last\<close> when there is no
  such position. Iterators into the buffer are indices; \<^verbatim>\<open>end\<close> is the length of the
  buffer. \<open>equal_prefix\<close> is the inner comparison loop: it succeeds when the pattern is used
  up and fails when the buffer is used up first.
\<close>

fun equal_prefix :: "u8 list \<Rightarrow> Signature \<Rightarrow> bool" where
  "equal_prefix bs [] = True"
| "equal_prefix [] (p # ps) = False"
| "equal_prefix (b # bs) (p # ps) = (sig_pred b p \<and> equal_prefix bs ps)"

function std_search :: "u8 list \<Rightarrow> nat \<Rightarrow> Signature \<Rightarrow> nat" where
  "std_search buf first sig =
     (if first \<ge> length buf then length buf
      else if equal_prefix (drop first buf) sig then first
      else std_search buf (Suc first) sig)"
  by pat_completeness auto
termination
  by (relation "measure (\<lambda>(buf, first, sig). length buf - first)") auto

declare std_search.simps [simp del]

lemma std_search_le: "std_search buf first sig \<le> length buf"
proof (induction buf first sig rule: std_search.induct)
  case (1 buf first sig)
  then show ?case
    by (subst std_search.simps) simp
qed

lemma std_search_ge: "first \<le> length buf \<Longrightarrow> first \<le> std_search buf first sig"
proof (induction buf first sig rule: std_search.induct)
  case (1 buf first sig)
  show ?case
  proof (cases "first \<ge> length buf \<or> equal_prefix (drop first buf) sig")
    case True
    with "1.prems" show ?thesis
      by (subst std_search.simps) auto
  next
    case False
    then have "Suc first \<le> std_search buf (Suc first) sig"
      using "1.IH" by simp
    with False show ?thesis
      by (subst std_search.simps) simp
  qed
qed

lemma std_search_past_end: "length buf \<le> first \<Longrightarrow> std_search buf first sig = length buf"
  by (subst std_search.simps) simp

text \<open>
  \<^verbatim>\<open>count_sig(begin, end, sig)\<close>: the \<^verbatim>\<open>while (true)\<close> loop with the iterator
  \<^verbatim>\<open>begin\<close> (here \<open>first\<close>) and \<^verbatim>\<open>count\<close> as arguments. \<open>found\<close> is the value
  \<^verbatim>\<open>std::search\<close> assigns to \<^verbatim>\<open>begin\<close>; after \<^verbatim>\<open>++count; ++begin\<close> the second test
  \<^verbatim>\<open>begin == end\<close> is \<open>Suc found = length buf\<close>. \<^verbatim>\<open>count\<close> is a C \<^verbatim>\<open>int\<close>: a
  32-bit word, read as two's complement by \<open>sint\<close>. \<^verbatim>\<open>++count\<close> past \<open>2^31 - 1\<close> is
  undefined in C++; the model wraps around, as the 32-bit increment of the machine does.
\<close>

function count_sig_loop :: "u8 list \<Rightarrow> nat \<Rightarrow> Signature \<Rightarrow> s32 \<Rightarrow> s32" where
  "count_sig_loop buf first sig count =
     (let found = std_search buf first sig in
      if found = length buf then count
      else if Suc found = length buf then count + 1
      else count_sig_loop buf (Suc found) sig (count + 1))"
  by pat_completeness auto
termination
proof (relation "measure (\<lambda>(buf, first, sig, count). length buf - first)")
  show "wf (measure (\<lambda>(buf, first, sig, count). length buf - first))" by simp
next
  fix buf :: "u8 list" and first :: nat and sig :: Signature and count :: s32 and found
  assume f: "found = std_search buf first sig" and ne: "found \<noteq> length buf"
  have le: "found \<le> length buf" using f std_search_le by simp
  have "first \<le> found"
  proof (cases "first \<le> length buf")
    case True
    then show ?thesis using f std_search_ge by simp
  next
    case False
    then have "std_search buf first sig = length buf"
      by (simp add: std_search_past_end)
    with f ne show ?thesis by simp
  qed
  with le ne show "((buf, Suc found, sig, count + 1), (buf, first, sig, count))
        \<in> measure (\<lambda>(buf, first, sig, count). length buf - first)"
    by simp
qed

declare count_sig_loop.simps [simp del]

text \<open>
  \<^verbatim>\<open>count_sig\<close> starts the loop with \<^verbatim>\<open>int count = 0\<close>; its result is the value of the
  \<^verbatim>\<open>int\<close> the loop returns.
\<close>

definition count_sig :: "u8 list \<Rightarrow> Signature \<Rightarrow> int" where
  "count_sig buf sig = sint (count_sig_loop buf 0 sig 0)"

section \<open>Argument parsing: parse_args\<close>

text \<open>\<^verbatim>\<open>0 == wcscmp(a, b)\<close>: the two C strings are equal up to their terminators.\<close>

definition wcs_equal :: "wchar list \<Rightarrow> wchar list \<Rightarrow> bool" where
  "wcs_equal a b = (wstring_of a = wstring_of b)"

text \<open>
  The three \<^verbatim>\<open>for (auto c : std::wstring{ arg })\<close> loops, with \<^verbatim>\<open>sig\<close> as the
  accumulator. The narrow loop leaves \<^verbatim>\<open>parse_args\<close> by \<^verbatim>\<open>return false\<close>, which is
  \<open>None\<close>; the other two cannot fail. \<^verbatim>\<open>(uint16_t)c\<close> keeps all 16 bits of the code
  unit, \<^verbatim>\<open>(uint8_t)\<close> keeps the low 8 bits.
\<close>

fun narrow_loop :: "wstring \<Rightarrow> Signature \<Rightarrow> Signature option" where
  "narrow_loop [] sig = Some sig"
| "narrow_loop (c # cs) sig =
     (let ushort = (ucast c :: u16) in
      if ushort > 0xFF then None
      else narrow_loop cs (sig @ [(ucast ushort, True)]))"

fun wide_loop :: "wstring \<Rightarrow> Signature \<Rightarrow> Signature" where
  "wide_loop [] sig = sig"
| "wide_loop (c # cs) sig =
     (let ushort = (ucast c :: u16) in
      wide_loop cs ((sig @ [(ucast ushort, True)]) @ [(ucast (drop_bit 8 ushort), True)]))"

fun widebe_loop :: "wstring \<Rightarrow> Signature \<Rightarrow> Signature" where
  "widebe_loop [] sig = sig"
| "widebe_loop (c # cs) sig =
     (let ushort = (ucast c :: u16) in
      widebe_loop cs ((sig @ [(ucast (drop_bit 8 ushort), True)]) @ [(ucast ushort, True)]))"

text \<open>The local \<^verbatim>\<open>enum class State\<close> of \<^verbatim>\<open>parse_args\<close>.\<close>

datatype ArgState = Type | ValuePattern | ValueNarrow | ValueWide | ValueWideBE | FileOnly | Done

text \<open>
  The loop \<^verbatim>\<open>for (int i = 1; i < argc; ++i)\<close> over the remaining arguments, with
  \<^verbatim>\<open>state\<close> and \<^verbatim>\<open>args\<close> as arguments. \<open>None\<close> is a \<^verbatim>\<open>return false\<close> inside the
  loop. \<^verbatim>\<open>args.sigs.emplace_back\<close> appends at the end.
\<close>

fun parse_args_loop ::
  "wchar list list \<Rightarrow> ArgState \<Rightarrow> Arguments \<Rightarrow> (ArgState \<times> Arguments) option" where
  "parse_args_loop [] state args = Some (state, args)"
| "parse_args_loop (arg # argv) state args =
     (if state = Type then
        (if wcs_equal arg (L ''--pattern'') then parse_args_loop argv ValuePattern args
         else if wcs_equal arg (L ''--narrow'') then parse_args_loop argv ValueNarrow args
         else if wcs_equal arg (L ''--wide'') then parse_args_loop argv ValueWide args
         else if wcs_equal arg (L ''--widebe'') then parse_args_loop argv ValueWideBE args
         else if wcs_equal arg (L ''--'') then parse_args_loop argv FileOnly args
         else parse_args_loop argv Done (args\<lparr>file' := wstring_of arg\<rparr>))
      else if state = FileOnly then
        parse_args_loop argv Done (args\<lparr>file' := wstring_of arg\<rparr>)
      else if state = ValuePattern then
        (let sig = parse_sig arg in
         if sig = [] then None
         else parse_args_loop argv Type (args\<lparr>sigs := sigs args @ [sig]\<rparr>))
      else if state = ValueNarrow then
        (case narrow_loop (wstring_of arg) [] of
           None \<Rightarrow> None
         | Some sig \<Rightarrow> parse_args_loop argv Type (args\<lparr>sigs := sigs args @ [sig]\<rparr>))
      else if state = ValueWide then
        (let sig = wide_loop (wstring_of arg) [] in
         parse_args_loop argv Type (args\<lparr>sigs := sigs args @ [sig]\<rparr>))
      else if state = ValueWideBE then
        (let sig = widebe_loop (wstring_of arg) [] in
         parse_args_loop argv Type (args\<lparr>sigs := sigs args @ [sig]\<rparr>))
      else None)"

text \<open>
  \<^verbatim>\<open>bool parse_args(Arguments& args, int argc, wchar_t** argv)\<close>: \<open>None\<close> is
  \<^verbatim>\<open>false\<close>, \<open>Some args\<close> is \<^verbatim>\<open>true\<close> with the arguments filled in. \<open>argv\<close> is the
  whole vector; the loop starts at index 1.
\<close>

definition parse_args :: "wchar list list \<Rightarrow> Arguments option" where
  "parse_args argv =
     (case parse_args_loop (drop 1 argv) Type \<lparr>file' = [], sigs = []\<rparr> of
        None \<Rightarrow> None
      | Some (state, args) \<Rightarrow>
          if sigs args = [] then None
          else if state \<noteq> Done then None
          else Some args)"

section \<open>The driver: wmain\<close>

text \<open>
  \<^verbatim>\<open>printf("%d", count)\<close>: the decimal digits of a C \<^verbatim>\<open>int\<close>, with a minus sign
  when it is negative.
\<close>

definition digit_char :: "nat \<Rightarrow> char" where
  "digit_char d = ''0123456789'' ! d"

function decimal :: "nat \<Rightarrow> string" where
  "decimal n = (if n < 10 then [digit_char n] else decimal (n div 10) @ [digit_char (n mod 10)])"
  by pat_completeness auto
termination
  by (relation "measure (\<lambda>n. n)") auto

declare decimal.simps [simp del]

definition printf_d :: "int \<Rightarrow> string" where
  "printf_d i = (if i < 0 then CHR ''-'' # decimal (nat (- i)) else decimal (nat i))"

text \<open>
  What the program writes to standard error: the usage text, which names \<^verbatim>\<open>argv[0]\<close>, or
  the message that names the file that could not be read.
\<close>

datatype message = Usage wstring | FailedOpening wstring

record Outcome =
  exit_code :: int
  stdout :: string
  stderr :: "message list"

text \<open>
  The output loop of \<^verbatim>\<open>wmain\<close>: \<^verbatim>\<open>for (size_t i = 0; i < sig_count; ++i)\<close>, with the
  text printed so far as the accumulator. \<open>CHR 0x0A\<close> is the newline.
\<close>

function print_counts :: "u8 list \<Rightarrow> Signature list \<Rightarrow> nat \<Rightarrow> string \<Rightarrow> string" where
  "print_counts data ss i out =
     (let sig_count = length ss in
      if i < sig_count then
        (let count = count_sig data (ss ! i) in
         if i = sig_count - 1
         then print_counts data ss (Suc i) (out @ printf_d count @ [CHR 0x0A])
         else print_counts data ss (Suc i) (out @ printf_d count @ '',''))
      else out)"
  by pat_completeness auto
termination
  by (relation "measure (\<lambda>(data, ss, i, out). length ss - i)") auto

declare print_counts.simps [simp del]

text \<open>
  \<^verbatim>\<open>wmain\<close>. The file system is a parameter: \<open>fs path\<close> is the content \<^verbatim>\<open>read_all\<close>
  loads, or \<open>None\<close> when the file cannot be opened or read. With an empty argument vector
  there is no \<^verbatim>\<open>argv[0]\<close> to print; the model prints an empty name then.
\<close>

definition read_all :: "(wstring \<Rightarrow> u8 list option) \<Rightarrow> wstring \<Rightarrow> u8 list option" where
  "read_all fs path = fs path"

definition wmain :: "(wstring \<Rightarrow> u8 list option) \<Rightarrow> wchar list list \<Rightarrow> Outcome" where
  "wmain fs argv =
     (case parse_args argv of
        None \<Rightarrow>
          \<lparr>exit_code = 1, stdout = [],
           stderr = [Usage (case argv of [] \<Rightarrow> [] | prog # rest \<Rightarrow> wstring_of prog)]\<rparr>
      | Some args \<Rightarrow>
          (case read_all fs (file' args) of
             None \<Rightarrow> \<lparr>exit_code = 2, stdout = [], stderr = [FailedOpening (file' args)]\<rparr>
           | Some data \<Rightarrow>
               \<lparr>exit_code = 0, stdout = print_counts data (sigs args) 0 [], stderr = []\<rparr>))"

section \<open>The matching rule in the words of the specification\<close>

text \<open>
  A signature matches the buffer at position \<open>p\<close> when it fits inside the buffer from
  \<open>p\<close> on and every cell is a wildcard or equals the buffer byte under it.
\<close>

definition matches_at :: "u8 list \<Rightarrow> Signature \<Rightarrow> nat \<Rightarrow> bool" where
  "matches_at buf sig p =
     (p + length sig \<le> length buf \<and>
      (\<forall>i \<in> {0..<length sig}. snd (sig ! i) = False \<or> buf ! (p + i) = fst (sig ! i)))"

text \<open>
  Two signatures that differ at most in the byte stored in their wildcard cells: every
  exact cell is the same in both, and a wildcard cell faces a wildcard cell.
\<close>

definition same_except_wildcard_bytes :: "Signature \<Rightarrow> Signature \<Rightarrow> bool" where
  "same_except_wildcard_bytes sig sig' =
     list_all2 (\<lambda>c c'. if snd c then c' = c else snd c' = False) sig sig'"

text \<open>Every wildcard cell of a signature stores the byte 0.\<close>

definition wildcards_zero :: "Signature \<Rightarrow> bool" where
  "wildcards_zero sig = list_all (\<lambda>cell. snd cell \<or> fst cell = 0) sig"

section \<open>The hex pattern compiler in the words of the specification\<close>

text \<open>
  The definitions of this section follow the specification, not the code. The nibble
  decoder of the specification: the value 0 to 15 of a character that is one of
  \<^verbatim>\<open>0-9\<close>, \<^verbatim>\<open>a-f\<close>, \<^verbatim>\<open>A-F\<close>, and nothing for any other character.
\<close>

definition hex_digit :: "wchar \<Rightarrow> u8 option" where
  "hex_digit c =
     (let n = unat c in
      if 48 \<le> n \<and> n \<le> 57 then Some (of_nat (n - 48))
      else if 97 \<le> n \<and> n \<le> 102 then Some (of_nat (n - 97 + 10))
      else if 65 \<le> n \<and> n \<le> 70 then Some (of_nat (n - 65 + 10))
      else None)"

text \<open>
  The four-state machine of the specification. One step reads a character in a state, with
  the remembered nibble \<open>r\<close>, and gives the next state, the nibble remembered from then
  on and the cells emitted by the step; \<open>None\<close> is "fail".
  \<^item> \<open>AfterSpace\<close>: whitespace stays; \<^verbatim>\<open>?\<close> emits a wildcard cell and enters
    \<open>AfterWildcard\<close>; a hex digit is remembered and enters \<open>AfterFirst\<close>; anything else
    fails.
  \<^item> \<open>AfterFirst\<close>: a hex digit emits the exact cell made of the remembered nibble and this
    digit and enters \<open>AfterSecond\<close>; anything else fails.
  \<^item> \<open>AfterSecond\<close>: whitespace enters \<open>AfterSpace\<close>; anything else fails.
  \<^item> \<open>AfterWildcard\<close>: whitespace enters \<open>AfterSpace\<close>; \<^verbatim>\<open>?\<close> stays and emits
    nothing; anything else fails.
\<close>

fun sm_step :: "State \<Rightarrow> u8 \<Rightarrow> wchar \<Rightarrow> (State \<times> u8 \<times> Signature) option" where
  "sm_step AfterSpace r c =
     (if isspace c then Some (AfterSpace, r, [])
      else if c = 0x3F then Some (AfterWildcard, r, [(0, False)])
      else case hex_digit c of
             Some v \<Rightarrow> Some (AfterFirst, v, [])
           | None \<Rightarrow> None)"
| "sm_step AfterFirst r c =
     (case hex_digit c of
        Some v \<Rightarrow> Some (AfterSecond, r, [(push_bit 4 r OR v, True)])
      | None \<Rightarrow> None)"
| "sm_step AfterSecond r c =
     (if isspace c then Some (AfterSpace, r, []) else None)"
| "sm_step AfterWildcard r c =
     (if isspace c then Some (AfterSpace, r, [])
      else if c = 0x3F then Some (AfterWildcard, r, [])
      else None)"

text \<open>The machine run over a text: the final state and all cells emitted, in order.\<close>

fun sm_run :: "State \<Rightarrow> u8 \<Rightarrow> wstring \<Rightarrow> (State \<times> Signature) option" where
  "sm_run s r [] = Some (s, [])"
| "sm_run s r (c # cs) =
     (case sm_step s r c of
        None \<Rightarrow> None
      | Some (s', r', emitted) \<Rightarrow>
          (case sm_run s' r' cs of
             None \<Rightarrow> None
           | Some (final, cells) \<Rightarrow> Some (final, emitted @ cells)))"

text \<open>
  \<^verbatim>\<open>compile_hex_pattern\<close> of the specification: the run starts in \<open>AfterSpace\<close> and
  succeeds with the emitted cells when the final state is \<open>AfterSpace\<close>, \<open>AfterSecond\<close> or
  \<open>AfterWildcard\<close>.
\<close>

definition compile_hex_pattern :: "wstring \<Rightarrow> Signature option" where
  "compile_hex_pattern ws =
     (case sm_run AfterSpace 0 ws of
        None \<Rightarrow> None
      | Some (final, cells) \<Rightarrow>
          if final = AfterSpace \<or> final = AfterSecond \<or> final = AfterWildcard
          then Some cells else None)"

text \<open>
  A character the pattern syntax does not know: not whitespace, not \<^verbatim>\<open>?\<close>, not a hex
  digit. A text that ends in a dangling single hex digit: its last character is a hex digit
  and the character before it, if there is one, is not.
\<close>

definition unrecognized :: "wchar \<Rightarrow> bool" where
  "unrecognized c = (\<not> isspace c \<and> c \<noteq> 0x3F \<and> hex_digit c = None)"

definition dangling_digit :: "wstring \<Rightarrow> bool" where
  "dangling_digit ws =
     (ws \<noteq> [] \<and> hex_digit (last ws) \<noteq> None \<and>
      (butlast ws = [] \<or> hex_digit (last (butlast ws)) = None))"

section \<open>The literal compiler in the words of the specification\<close>

text \<open>
  \<^verbatim>\<open>compile_literal(text, encoding)\<close> of the specification. \<open>Narrow\<close>: one exact cell
  per character, holding its low byte; fails when a code point exceeds 255. \<open>WideLE\<close>: two
  exact cells per character, low byte then high byte. \<open>WideBE\<close>: two exact cells per
  character, high byte then low byte.
\<close>

datatype Encoding = Narrow | WideLE | WideBE

definition low_byte :: "wchar \<Rightarrow> u8" where
  "low_byte c = of_nat (unat c mod 256)"

definition high_byte :: "wchar \<Rightarrow> u8" where
  "high_byte c = of_nat (unat c div 256)"

fun compile_literal :: "wstring \<Rightarrow> Encoding \<Rightarrow> Signature option" where
  "compile_literal ws Narrow =
     (if list_ex (\<lambda>c. 255 < unat c) ws then None
      else Some (map (\<lambda>c. (low_byte c, True)) ws))"
| "compile_literal ws WideLE =
     Some (concat (map (\<lambda>c. [(low_byte c, True), (high_byte c, True)]) ws))"
| "compile_literal ws WideBE =
     Some (concat (map (\<lambda>c. [(high_byte c, True), (low_byte c, True)]) ws))"

section \<open>The command line in the words of the specification\<close>

text \<open>
  The command line of the specification is
  \<^verbatim>\<open>prog [--pattern <p> | --narrow <s> | --wide <s> | --widebe <s>]+ [--] <file>\<close>.
  A signature option is a flag and its value; \<open>built_sig\<close> is the signature the option
  stands for, \<open>None\<close> when the value does not compile, and \<open>option_args\<close> are the two
  arguments it takes on the command line.
\<close>

datatype Flag = PatternFlag | LiteralFlag Encoding

fun flag_text :: "Flag \<Rightarrow> wstring" where
  "flag_text PatternFlag = L ''--pattern''"
| "flag_text (LiteralFlag Narrow) = L ''--narrow''"
| "flag_text (LiteralFlag WideLE) = L ''--wide''"
| "flag_text (LiteralFlag WideBE) = L ''--widebe''"

fun built_sig :: "Flag \<Rightarrow> wchar list \<Rightarrow> Signature option" where
  "built_sig PatternFlag v = (if parse_sig v = [] then None else Some (parse_sig v))"
| "built_sig (LiteralFlag e) v = compile_literal (wstring_of v) e"

definition option_args :: "Flag \<times> wchar list \<Rightarrow> wchar list list" where
  "option_args fv = [flag_text (fst fv), snd fv]"

text \<open>
  The arguments \<open>parse_args\<close> reads as a flag when it expects one, and those among them
  that announce a signature.
\<close>

definition is_flag :: "wchar list \<Rightarrow> bool" where
  "is_flag arg =
     (wstring_of arg \<in>
        set [L ''--pattern'', L ''--narrow'', L ''--wide'', L ''--widebe'', L ''--''])"

definition is_signature_flag :: "wchar list \<Rightarrow> bool" where
  "is_signature_flag arg =
     (wstring_of arg \<in> set [L ''--pattern'', L ''--narrow'', L ''--wide'', L ''--widebe''])"

text \<open>Texts separated by commas, with no trailing comma.\<close>

fun comma_separated :: "string list \<Rightarrow> string" where
  "comma_separated [] = []"
| "comma_separated [x] = x"
| "comma_separated (x # y # zs) = x @ '','' @ comma_separated (y # zs)"

text \<open>
  A file system for the examples: the file \<^verbatim>\<open>f\<close> holds the two bytes \<^verbatim>\<open>AB\<close>, and a
  file named \<^verbatim>\<open>--foo\<close> holds \<^verbatim>\<open>AA\<close>.
\<close>

definition sample_fs :: "wstring \<Rightarrow> u8 list option" where
  "sample_fs = map_of [(L ''f'', [0x41, 0x42]), (L ''--foo'', [0x41, 0x41])]"

text \<open>
  The reading of a command line, left to right as the specification has it: the flag an
  argument stands for, the signature options taken from the front of the arguments (a
  signature flag and the argument after it, which is its value), and what is left after
  them.
\<close>

definition flag_of :: "wchar list \<Rightarrow> Flag option" where
  "flag_of arg =
     (if wstring_of arg = L ''--pattern'' then Some PatternFlag
      else if wstring_of arg = L ''--narrow'' then Some (LiteralFlag Narrow)
      else if wstring_of arg = L ''--wide'' then Some (LiteralFlag WideLE)
      else if wstring_of arg = L ''--widebe'' then Some (LiteralFlag WideBE)
      else None)"

fun split_options :: "wchar list list \<Rightarrow> (Flag \<times> wchar list) list \<times> wchar list list" where
  "split_options [] = ([], [])"
| "split_options [x] = ([], [x])"
| "split_options (f # v # rest) =
     (case flag_of f of
        None \<Rightarrow> ([], f # v # rest)
      | Some fl \<Rightarrow> (case split_options rest of (opts, tail) \<Rightarrow> ((fl, v) # opts, tail)))"

text \<open>
  The file argument among what is left after the options: the one remaining argument when
  it is not a flag, or the argument after \<^verbatim>\<open>--\<close> when nothing follows it.
\<close>

fun file_of_tail :: "wchar list list \<Rightarrow> wstring option" where
  "file_of_tail [] = None"
| "file_of_tail [x] = (if is_flag x then None else Some (wstring_of x))"
| "file_of_tail [d, y] = (if wstring_of d = L ''--'' then Some (wstring_of y) else None)"
| "file_of_tail (d # y # z # others) = None"

text \<open>
  The command line of the specification, read as a whole: at least one signature option,
  every value compiles, and the file argument is there with nothing after it.
\<close>

definition cli_parse :: "wchar list list \<Rightarrow> Arguments option" where
  "cli_parse argv =
     (case split_options (drop 1 argv) of
        (opts, tail) \<Rightarrow>
          if opts = [] then None
          else case those (map (\<lambda>fv. built_sig (fst fv) (snd fv)) opts) of
                 None \<Rightarrow> None
               | Some ss \<Rightarrow>
                   (case file_of_tail tail of
                      None \<Rightarrow> None
                    | Some path \<Rightarrow> Some \<lparr>file' = path, sigs = ss\<rparr>))"

text \<open>
  The three usage errors of the specification, on the reading of the command line. Zero
  signatures supplied: no signature option is read. A flag missing its value: the
  arguments end with a signature flag read as a flag. A missing file argument: nothing is
  left after the options, or only a flag is.
\<close>

definition zero_signatures :: "wchar list list \<Rightarrow> bool" where
  "zero_signatures argv = (fst (split_options (drop 1 argv)) = [])"

fun lacks_value :: "wchar list list \<Rightarrow> bool" where
  "lacks_value [x] = is_signature_flag x"
| "lacks_value tail = False"

definition flag_missing_value :: "wchar list list \<Rightarrow> bool" where
  "flag_missing_value argv = lacks_value (snd (split_options (drop 1 argv)))"

fun lacks_file :: "wchar list list \<Rightarrow> bool" where
  "lacks_file [] = True"
| "lacks_file [x] = is_flag x"
| "lacks_file tail = False"

definition missing_file :: "wchar list list \<Rightarrow> bool" where
  "missing_file argv = lacks_file (snd (split_options (drop 1 argv)))"

section \<open>Properties of the search and of the counting loop\<close>

lemma equal_prefix_iff:
  "equal_prefix bs sig \<longleftrightarrow>
     length sig \<le> length bs \<and> (\<forall>i<length sig. sig_pred (bs ! i) (sig ! i))"
proof (induction bs sig rule: equal_prefix.induct)
  case (3 b bs p ps)
  then show ?case
    by (auto simp: less_Suc_eq_0_disj)
qed simp_all

lemma equal_prefix_drop:
  assumes "p \<le> length buf"
  shows "equal_prefix (drop p buf) sig = matches_at buf sig p"
proof -
  have "\<And>i. i < length sig \<Longrightarrow> p + length sig \<le> length buf \<Longrightarrow> drop p buf ! i = buf ! (p + i)"
    by simp
  then show ?thesis
    using assms unfolding equal_prefix_iff matches_at_def sig_pred_def
    by auto
qed

lemma std_search_none_before:
  "first \<le> q \<Longrightarrow> q < std_search buf first sig \<Longrightarrow> \<not> equal_prefix (drop q buf) sig"
proof (induction buf first sig rule: std_search.induct)
  case (1 buf first sig)
  have le: "std_search buf first sig \<le> length buf" by (rule std_search_le)
  with "1.prems" have lt: "first < length buf" by simp
  show ?case
  proof (cases "equal_prefix (drop first buf) sig")
    case True
    with lt have "std_search buf first sig = first"
      by (subst std_search.simps) simp
    with "1.prems" show ?thesis by simp
  next
    case False
    with lt have eq: "std_search buf first sig = std_search buf (Suc first) sig"
      by (subst std_search.simps) simp
    show ?thesis
    proof (cases "q = first")
      case True
      with False show ?thesis by simp
    next
      case neq: False
      with "1.prems" have "Suc first \<le> q" by simp
      moreover from "1.prems" eq have "q < std_search buf (Suc first) sig" by simp
      ultimately show ?thesis using "1.IH" lt False by simp
    qed
  qed
qed

lemma std_search_found:
  "std_search buf first sig < length buf \<Longrightarrow>
     equal_prefix (drop (std_search buf first sig) buf) sig"
proof (induction buf first sig rule: std_search.induct)
  case (1 buf first sig)
  have lt: "first < length buf"
  proof (rule ccontr)
    assume "\<not> first < length buf"
    then have "std_search buf first sig = length buf"
      by (simp add: std_search_past_end)
    with "1.prems" show False by simp
  qed
  show ?case
  proof (cases "equal_prefix (drop first buf) sig")
    case True
    with lt have "std_search buf first sig = first"
      by (subst std_search.simps) simp
    with True show ?thesis by simp
  next
    case False
    with lt have eq: "std_search buf first sig = std_search buf (Suc first) sig"
      by (subst std_search.simps) simp
    with "1.prems" "1.IH" lt False show ?thesis by simp
  qed
qed


lemma count_sig_loop_filter:
  "count_sig_loop buf first sig count =
     count + of_nat (length (filter (\<lambda>p. equal_prefix (drop p buf) sig) [first..<length buf]))"
proof (induction buf first sig count rule: count_sig_loop.induct)
  case (1 buf first sig count)
  let ?P = "\<lambda>p. equal_prefix (drop p buf) sig"
  let ?n = "length buf"
  let ?found = "std_search buf first sig"
  show ?case
  proof (cases "first \<ge> ?n")
    case True
    then have "?found = ?n" by (simp add: std_search_past_end)
    with True show ?thesis
      by (subst count_sig_loop.simps) simp
  next
    case False
    then have ge: "first \<le> ?found" using std_search_ge by simp
    have le: "?found \<le> ?n" by (rule std_search_le)
    have "[first..<?n] = [first..<?found] @ [?found..<?n]"
      using ge le by (metis le_Suc_ex upt_add_eq_append)
    moreover have "filter ?P [first..<?found] = []"
      using std_search_none_before by (auto simp: filter_empty_conv)
    ultimately have split: "filter ?P [first..<?n] = filter ?P [?found..<?n]"
      by simp
    show ?thesis
    proof (cases "?found = ?n")
      case True
      with split show ?thesis
        by (subst count_sig_loop.simps) simp
    next
      case nf: False
      with le have lt: "?found < ?n" by simp
      then have hit: "?P ?found" by (rule std_search_found)
      from lt have "[?found..<?n] = ?found # [Suc ?found..<?n]"
        by (rule upt_conv_Cons)
      with split hit have len: "length (filter ?P [first..<?n]) =
          Suc (length (filter ?P [Suc ?found..<?n]))"
        by simp
      show ?thesis
      proof (cases "Suc ?found = ?n")
        case True
        with nf len show ?thesis
          by (subst count_sig_loop.simps) simp
      next
        case False
        with nf have "count_sig_loop buf first sig count =
            count_sig_loop buf (Suc ?found) sig (count + 1)"
          by (subst count_sig_loop.simps) simp
        also have "\<dots> = count + 1 + of_nat (length (filter ?P [Suc ?found..<?n]))"
          using "1.IH" nf False by simp
        finally show ?thesis using len by simp
      qed
    qed
  qed
qed

lemma sint_of_nat_small: "n < 2 ^ 31 \<Longrightarrow> sint (of_nat n :: s32) = int n"
  by (simp add: signed_of_nat signed_take_bit_int_eq_self)

lemma count_sig_filter:
  "count_sig buf sig =
     sint (of_nat (length (filter (matches_at buf sig) [0..<length buf])) :: s32)"
proof -
  have "filter (\<lambda>p. equal_prefix (drop p buf) sig) [0..<length buf] =
        filter (matches_at buf sig) [0..<length buf]"
    by (rule filter_cong) (simp_all add: equal_prefix_drop)
  then show ?thesis
    by (simp add: count_sig_def count_sig_loop_filter)
qed


lemma equal_prefix_wildcard_bytes:
  "same_except_wildcard_bytes sig sig' \<Longrightarrow> equal_prefix bs sig = equal_prefix bs sig'"
  unfolding same_except_wildcard_bytes_def
proof (induction sig sig' arbitrary: bs rule: list_all2_induct)
  case Nil
  show ?case by simp
next
  case (Cons c sig c' sig')
  show ?case
  proof (cases bs)
    case Nil
    then show ?thesis by simp
  next
    case (Cons b bs')
    have "sig_pred b c = sig_pred b c'"
      using Cons.hyps(1) by (auto simp: sig_pred_def split: if_splits)
    with Cons.IH [of bs'] Cons show ?thesis by simp
  qed
qed

lemma same_except_wildcard_bytes_update:
  assumes "i < length sig" and "snd (sig ! i) = False"
  shows "same_except_wildcard_bytes sig (sig[i := (b, False)])"
  unfolding same_except_wildcard_bytes_def list_all2_conv_all_nth
  using assms by (auto simp: nth_list_update)

lemma wildcards_zero_simps:
  "wildcards_zero []"
  "wildcards_zero (sig @ [(0, False)]) = wildcards_zero sig"
  "wildcards_zero (sig @ [(b, True)]) = wildcards_zero sig"
  by (simp_all add: wildcards_zero_def)

lemma parse_sig_loop_wildcards_zero:
  "wildcards_zero sig \<Longrightarrow> wildcards_zero (parse_sig_loop str state nibble sig)"
proof (induction str arbitrary: state nibble sig)
  case Nil
  then show ?case by (simp add: wildcards_zero_simps)
next
  case (Cons c str)
  show ?case
  proof (cases "c = 0")
    case True
    with Cons.prems show ?thesis by (simp add: wildcards_zero_simps)
  next
    case False
    show ?thesis
    proof (cases state)
      case AfterSpace
      with False Cons.prems show ?thesis
        by (simp add: Let_def wildcards_zero_simps Cons.IH)
    next
      case AfterFirst
      with False Cons.prems show ?thesis
        by (simp add: Let_def wildcards_zero_simps Cons.IH)
    next
      case AfterSecond
      with False Cons.prems show ?thesis
        by (simp add: wildcards_zero_simps Cons.IH)
    next
      case AfterWildcard
      with False Cons.prems show ?thesis
        by (simp add: wildcards_zero_simps Cons.IH)
    qed
  qed
qed

lemma count_sig_wildcard_bytes:
  "same_except_wildcard_bytes sig sig' \<Longrightarrow> count_sig buf sig = count_sig buf sig'"
  by (simp add: count_sig_def count_sig_loop_filter equal_prefix_wildcard_bytes)

lemma parse_sig_wildcards_zero: "wildcards_zero (parse_sig str)"
  unfolding parse_sig_def
  by (rule parse_sig_loop_wildcards_zero) (simp add: wildcards_zero_simps)

lemma ucast_low: "(c :: wchar) < 0x80 \<Longrightarrow> unat (ucast c :: u8) = unat c"
proof -
  assume "c < 0x80"
  then have "unat c < 2 ^ 8" by (simp add: word_less_nat_alt)
  then show ?thesis by (simp add: unsigned_ucast_eq take_bit_nat_eq_self)
qed

lemma unhex_nat:
  "unat (unhex c) =
     (let n = unat c in
      if 48 \<le> n \<and> n \<le> 57 then n - 48
      else if 97 \<le> n \<and> n \<le> 102 then n - 97 + 10
      else if 65 \<le> n \<and> n \<le> 70 then n - 65 + 10
      else 255)"
proof (cases "c \<ge> 0x80 \<or> c \<le> 0")
  case True
  then have "unat c \<ge> 128 \<or> unat c = 0"
    by (auto simp: word_le_nat_alt)
  with True show ?thesis by (auto simp: unhex_def Let_def)
next
  case False
  then have lt: "c < 0x80" by (simp add: not_le)
  have u: "unat (ucast c :: u8) = unat c" using lt by (rule ucast_low)
  have n: "unat c < 128" using lt by (simp add: word_less_nat_alt)
  show ?thesis
    using False u n
    by (auto simp: unhex_def Let_def word_le_nat_alt unat_sub unat_word_ariths)
qed

lemma unhex_hex_digit:
  "unhex c = (case hex_digit c of None \<Rightarrow> 0xFF | Some v \<Rightarrow> v)"
proof -
  have "unhex c = of_nat (unat (unhex c))" by simp
  also have "\<dots> = (case hex_digit c of None \<Rightarrow> 0xFF | Some v \<Rightarrow> v)"
    unfolding unhex_nat by (simp add: hex_digit_def Let_def)
  finally show ?thesis .
qed

lemma hex_digit_lt16:
  assumes "hex_digit c = Some v"
  shows "v < 16"
proof -
  from assms have v: "unhex c = v" by (simp add: unhex_hex_digit)
  from assms have "(48 \<le> unat c \<and> unat c \<le> 57) \<or> (97 \<le> unat c \<and> unat c \<le> 102)
      \<or> (65 \<le> unat c \<and> unat c \<le> 70)"
    unfolding hex_digit_def Let_def by (simp split: if_splits)
  then have "unat (unhex c) < 16"
    unfolding unhex_nat Let_def by auto
  with v show ?thesis by (simp add: word_less_nat_alt)
qed

lemma hex_digit_not_FF: "hex_digit c = Some v \<Longrightarrow> v \<noteq> 0xFF"
  using hex_digit_lt16 [of c v] by auto

lemma hex_digit_None_iff: "hex_digit c = None \<longleftrightarrow> unhex c = 0xFF"
  using hex_digit_not_FF [of c] by (cases "hex_digit c") (auto simp: unhex_hex_digit)


lemma parse_sig_loop_terminator:
  "parse_sig_loop (wstring_of str) state nibble sig = parse_sig_loop str state nibble sig"
  unfolding wstring_of_def
proof (induction str arbitrary: state nibble sig)
  case Nil
  show ?case by simp
next
  case (Cons c str)
  show ?case
  proof (cases "c = 0")
    case True
    then show ?thesis by simp
  next
    case False
    then show ?thesis
      by (cases state) (simp_all add: Cons.IH Let_def)
  qed
qed

lemma wstring_of_no_zero: "0 \<notin> set (wstring_of str)"
  unfolding wstring_of_def by (auto dest: set_takeWhileD)

lemma parse_sig_loop_sm_run:
  assumes "0 \<notin> set ws" and "state = AfterFirst \<longrightarrow> nibble = r"
  shows "parse_sig_loop ws state nibble sig =
     (case sm_run state r ws of
        None \<Rightarrow> []
      | Some (final, cells) \<Rightarrow> if final = AfterFirst then [] else sig @ cells)"
  using assms
proof (induction ws arbitrary: state nibble r sig)
  case Nil
  show ?case by simp
next
  case (Cons c ws)
  from Cons.prems have c0: "c \<noteq> 0" and z: "0 \<notin> set ws" by auto
  note IH = Cons.IH [OF z]
  show ?case
  proof (cases state)
    case AfterSpace
    show ?thesis
    proof (cases "isspace c")
      case True
      with AfterSpace c0 show ?thesis
        by (simp add: Let_def IH [of AfterSpace _ r] split: option.splits)
    next
      case ns: False
      show ?thesis
      proof (cases "c = 0x3F")
        case True
        with AfterSpace ns c0 show ?thesis
          by (simp add: Let_def IH [of AfterWildcard _ r] split: option.splits)
      next
        case nq: False
        show ?thesis
        proof (cases "hex_digit c")
          case None
          then have "unhex c = 0xFF" by (simp add: hex_digit_None_iff)
          with None AfterSpace ns nq c0 show ?thesis by (simp add: Let_def)
        next
          case (Some v)
          then have "unhex c = v" "v \<noteq> 0xFF"
            by (simp_all add: unhex_hex_digit hex_digit_not_FF)
          with Some AfterSpace ns nq c0 show ?thesis
            by (simp add: Let_def IH [of AfterFirst v v] split: option.splits)
        qed
      qed
    qed
  next
    case AfterFirst
    with Cons.prems have nr: "nibble = r" by simp
    show ?thesis
    proof (cases "hex_digit c")
      case None
      then have "unhex c = 0xFF" by (simp add: hex_digit_None_iff)
      with None AfterFirst c0 show ?thesis by (simp add: Let_def)
    next
      case (Some v)
      then have "unhex c = v" "v \<noteq> 0xFF"
        by (simp_all add: unhex_hex_digit hex_digit_not_FF)
      with Some AfterFirst c0 nr show ?thesis
        by (simp add: Let_def IH [of AfterSecond _ r] split: option.splits)
    qed
  next
    case AfterSecond
    with c0 show ?thesis
      by (simp add: IH [of AfterSpace _ r] split: option.splits)
  next
    case AfterWildcard
    with c0 show ?thesis
      by (simp add: IH [of AfterSpace _ r] IH [of AfterWildcard _ r] split: option.splits)
  qed
qed

lemma parse_sig_refines:
  "parse_sig str =
     (case compile_hex_pattern (wstring_of str) of None \<Rightarrow> [] | Some cells \<Rightarrow> cells)"
proof -
  have "parse_sig str = parse_sig_loop (wstring_of str) AfterSpace 0 []"
    by (simp add: parse_sig_def parse_sig_loop_terminator)
  also have "\<dots> = (case sm_run AfterSpace 0 (wstring_of str) of
        None \<Rightarrow> []
      | Some (final, cells) \<Rightarrow> if final = AfterFirst then [] else [] @ cells)"
    by (rule parse_sig_loop_sm_run) (simp_all add: wstring_of_no_zero)
  also have "\<dots> = (case compile_hex_pattern (wstring_of str) of None \<Rightarrow> [] | Some cells \<Rightarrow> cells)"
    unfolding compile_hex_pattern_def
    by (auto split: option.splits prod.splits intro: State.exhaust)
  finally show ?thesis .
qed


lemma hex_digit_not_space: "hex_digit c = Some v \<Longrightarrow> \<not> isspace c \<and> c \<noteq> 0x3F"
  by (auto simp: hex_digit_def isspace_def Let_def word_le_nat_alt split: if_splits)

lemma sm_step_not_hex:
  "hex_digit c = None \<Longrightarrow> sm_step s r c = Some (s', r', e) \<Longrightarrow> s' \<noteq> AfterFirst"
  by (cases s) (auto split: if_splits)

lemma sm_step_unrecognized: "unrecognized c \<Longrightarrow> sm_step s r c = None"
  by (cases s) (simp_all add: unrecognized_def)

lemma sm_run_unrecognized: "c \<in> set ws \<Longrightarrow> unrecognized c \<Longrightarrow> sm_run s r ws = None"
proof (induction ws arbitrary: s r)
  case Nil
  then show ?case by simp
next
  case (Cons a ws)
  show ?case
  proof (cases "a = c")
    case True
    with Cons.prems show ?thesis by (simp add: sm_step_unrecognized)
  next
    case False
    with Cons.prems have "c \<in> set ws" by simp
    then have "\<And>s' r'. sm_run s' r' ws = None" using Cons.IH Cons.prems(2) by simp
    then show ?thesis by (simp split: option.splits)
  qed
qed

lemma sm_run_dangling:
  assumes "ws \<noteq> []" and "hex_digit (last ws) = Some v"
    and "butlast ws = [] \<Longrightarrow> s \<noteq> AfterFirst"
    and "butlast ws \<noteq> [] \<Longrightarrow> hex_digit (last (butlast ws)) = None"
  shows "sm_run s r ws = None \<or> (\<exists>cells. sm_run s r ws = Some (AfterFirst, cells))"
  using assms
proof (induction ws arbitrary: s r)
  case Nil
  then show ?case by simp
next
  case (Cons c ws)
  show ?case
  proof (cases "ws = []")
    case True
    with Cons.prems have s: "s \<noteq> AfterFirst" and h: "hex_digit c = Some v" by simp_all
    from h have "\<not> isspace c" "c \<noteq> 0x3F" using hex_digit_not_space by blast+
    with s h True show ?thesis by (cases s) simp_all
  next
    case False
    show ?thesis
    proof (cases "sm_step s r c")
      case None
      then show ?thesis by simp
    next
      case (Some t)
      obtain s' r' e where t: "t = (s', r', e)" by (cases t)
      have l: "hex_digit (last ws) = Some v" using Cons.prems(2) False by simp
      have b1: "butlast ws = [] \<Longrightarrow> s' \<noteq> AfterFirst"
      proof -
        assume bl: "butlast ws = []"
        with False have "butlast (c # ws) = [c]" by simp
        with Cons.prems(4) have "hex_digit c = None" by simp
        with Some t show "s' \<noteq> AfterFirst" using sm_step_not_hex by blast
      qed
      have b2: "butlast ws \<noteq> [] \<Longrightarrow> hex_digit (last (butlast ws)) = None"
        using Cons.prems(4) False by simp
      from Cons.IH [OF False l b1 b2, of r']
      show ?thesis using Some t by auto
    qed
  qed
qed

lemma compile_hex_pattern_dangling: "dangling_digit ws \<Longrightarrow> compile_hex_pattern ws = None"
proof -
  assume d: "dangling_digit ws"
  then obtain v where v: "hex_digit (last ws) = Some v" and ne: "ws \<noteq> []"
    by (auto simp: dangling_digit_def)
  from d have b: "butlast ws \<noteq> [] \<Longrightarrow> hex_digit (last (butlast ws)) = None"
    by (auto simp: dangling_digit_def)
  have "sm_run AfterSpace 0 ws = None \<or> (\<exists>cells. sm_run AfterSpace 0 ws = Some (AfterFirst, cells))"
    by (rule sm_run_dangling [OF ne v _ b]) simp_all
  then show ?thesis by (auto simp: compile_hex_pattern_def)
qed

lemma sm_run_question_marks:
  "sm_run AfterWildcard r (replicate n 0x3F) = Some (AfterWildcard, [])"
  by (induction n) (simp_all add: isspace_def)

lemma compile_hex_pattern_question_marks:
  "compile_hex_pattern (replicate (Suc n) 0x3F) = Some [(0, False)]"
  by (simp add: compile_hex_pattern_def isspace_def sm_run_question_marks)

lemma wstring_of_id: "0 \<notin> set ws \<Longrightarrow> wstring_of ws = ws"
  unfolding wstring_of_def by (auto simp: takeWhile_eq_all_conv)

lemma parse_args_loop_append:
  "parse_args_loop (xs @ ys) st a =
     (case parse_args_loop xs st a of
        None \<Rightarrow> None
      | Some (st', a') \<Rightarrow> parse_args_loop ys st' a')"
proof (induction xs arbitrary: st a)
  case Nil
  show ?case by simp
next
  case (Cons x xs)
  show ?case
    by (cases st) (simp_all add: Cons.IH Let_def split: option.splits)
qed

lemma parse_args_bad_pattern:
  assumes "parse_sig str = []"
    and "parse_args_loop pre Type \<lparr>file' = [], sigs = []\<rparr> = Some (ValuePattern, args)"
  shows "parse_args (prog # pre @ str # rest) = None"
proof -
  have "parse_args_loop (pre @ str # rest) Type \<lparr>file' = [], sigs = []\<rparr> =
      parse_args_loop (str # rest) ValuePattern args"
    using assms(2) by (simp add: parse_args_loop_append)
  also have "\<dots> = None" using assms(1) by simp
  finally show ?thesis by (simp add: parse_args_def)
qed

lemma wmain_usage:
  "parse_args (prog # rest) = None \<Longrightarrow>
   wmain fs (prog # rest) = \<lparr>exit_code = 1, stdout = [], stderr = [Usage (wstring_of prog)]\<rparr>"
  by (simp add: wmain_def)

section \<open>Properties of the literal loops\<close>

lemma ucast_low_byte: "(ucast (c :: wchar) :: u8) = low_byte c"
  by (simp add: low_byte_def word_unat_eq_iff unsigned_ucast_eq take_bit_eq_mod unat_of_nat)

lemma ucast_high_byte: "(ucast (drop_bit 8 (c :: wchar)) :: u8) = high_byte c"
proof -
  have "unat c div 256 < 256"
    using unsigned_less [of c, where 'a = nat] by simp
  then show ?thesis
    by (simp add: high_byte_def word_unat_eq_iff unsigned_ucast_eq take_bit_eq_mod
        unat_of_nat unat_drop_bit_eq drop_bit_eq_div unat_div)
qed

lemma low_byte_drop_bit: "low_byte (drop_bit 8 c) = high_byte c"
  using ucast_high_byte [of c] ucast_low_byte [of "drop_bit 8 c"] by simp

lemma narrow_loop_acc:
  "narrow_loop ws acc =
     (if list_ex (\<lambda>c. 255 < unat c) ws then None
      else Some (acc @ map (\<lambda>c. (low_byte c, True)) ws))"
proof (induction ws arbitrary: acc)
  case Nil
  show ?case by simp
next
  case (Cons c ws)
  have "(0xFF < (ucast c :: u16)) = (255 < unat c)"
    by (simp add: word_less_nat_alt)
  then show ?case
    by (simp add: Cons.IH Let_def ucast_low_byte)
qed

lemma wide_loop_acc:
  "wide_loop ws acc = acc @ concat (map (\<lambda>c. [(low_byte c, True), (high_byte c, True)]) ws)"
  by (induction ws arbitrary: acc) (simp_all add: Let_def ucast_low_byte low_byte_drop_bit)

lemma widebe_loop_acc:
  "widebe_loop ws acc = acc @ concat (map (\<lambda>c. [(high_byte c, True), (low_byte c, True)]) ws)"
  by (induction ws arbitrary: acc) (simp_all add: Let_def ucast_low_byte low_byte_drop_bit)

lemma narrow_loop_compile_literal: "narrow_loop ws [] = compile_literal ws Narrow"
  by (simp add: narrow_loop_acc)

lemma wide_loop_compile_literal: "Some (wide_loop ws []) = compile_literal ws WideLE"
  by (simp add: wide_loop_acc)

lemma widebe_loop_compile_literal: "Some (widebe_loop ws []) = compile_literal ws WideBE"
  by (simp add: widebe_loop_acc)

lemma compile_literal_exact:
  "compile_literal ws e = Some sig \<Longrightarrow>
     list_all snd sig \<and> length sig = (if e = Narrow then length ws else 2 * length ws)"
proof (cases e)
  case Narrow
  assume "compile_literal ws e = Some sig"
  with Narrow show ?thesis
    by (auto simp: list_all_iff split: if_splits)
next
  case WideLE
  assume "compile_literal ws e = Some sig"
  with WideLE have sig: "sig = concat (map (\<lambda>c. [(low_byte c, True), (high_byte c, True)]) ws)"
    by simp
  have "length sig = 2 * length ws" unfolding sig by (induction ws) simp_all
  moreover have "list_all snd sig" unfolding sig by (induction ws) simp_all
  ultimately show ?thesis using WideLE by simp
next
  case WideBE
  assume "compile_literal ws e = Some sig"
  with WideBE have sig: "sig = concat (map (\<lambda>c. [(high_byte c, True), (low_byte c, True)]) ws)"
    by simp
  have "length sig = 2 * length ws" unfolding sig by (induction ws) simp_all
  moreover have "list_all snd sig" unfolding sig by (induction ws) simp_all
  ultimately show ?thesis using WideBE by simp
qed

section \<open>Properties of argument parsing and of the output loop\<close>

lemma wstring_of_L_flags:
  "wstring_of (L ''--pattern'') = L ''--pattern''"
  "wstring_of (L ''--narrow'') = L ''--narrow''"
  "wstring_of (L ''--wide'') = L ''--wide''"
  "wstring_of (L ''--widebe'') = L ''--widebe''"
  "wstring_of (L ''--'') = L ''--''"
  by (simp_all add: wstring_of_def L_def)

lemma parse_args_loop_option:
  "parse_args_loop (flag_text f # v # rest) Type a =
     (case built_sig f v of
        None \<Rightarrow> None
      | Some sig \<Rightarrow> parse_args_loop rest Type (a\<lparr>sigs := sigs a @ [sig]\<rparr>))"
proof (cases f)
  case PatternFlag
  then show ?thesis
    by (simp add: wcs_equal_def Let_def)
next
  case (LiteralFlag e)
  show ?thesis
  proof (cases e)
    case Narrow
    have "parse_args_loop (L ''--narrow'' # v # rest) Type a =
        parse_args_loop (v # rest) ValueNarrow a"
      by (simp add: wcs_equal_def wstring_of_L_flags) (simp add: L_def)
    with LiteralFlag Narrow show ?thesis
      by (simp add: narrow_loop_compile_literal del: compile_literal.simps parse_args_loop.simps)
        (simp add: narrow_loop_compile_literal del: compile_literal.simps)
  next
    case WideLE
    have "parse_args_loop (L ''--wide'' # v # rest) Type a =
        parse_args_loop (v # rest) ValueWide a"
      by (simp add: wcs_equal_def wstring_of_L_flags) (simp add: L_def)
    with LiteralFlag WideLE show ?thesis
      by (simp add: wide_loop_acc Let_def)
  next
    case WideBE
    have "parse_args_loop (L ''--widebe'' # v # rest) Type a =
        parse_args_loop (v # rest) ValueWideBE a"
      by (simp add: wcs_equal_def wstring_of_L_flags) (simp add: L_def)
    with LiteralFlag WideBE show ?thesis
      by (simp add: widebe_loop_acc Let_def)
  qed
qed

lemma parse_args_loop_options:
  "map (\<lambda>fv. built_sig (fst fv) (snd fv)) specs = map Some ss \<Longrightarrow>
   parse_args_loop (concat (map option_args specs) @ rest) Type a =
     parse_args_loop rest Type (a\<lparr>sigs := sigs a @ ss\<rparr>)"
proof (induction specs arbitrary: ss a)
  case Nil
  then show ?case by simp
next
  case (Cons fv specs)
  from Cons.prems obtain sig ss' where ss: "ss = sig # ss'"
    and b: "built_sig (fst fv) (snd fv) = Some sig"
    and r: "map (\<lambda>fv. built_sig (fst fv) (snd fv)) specs = map Some ss'"
    by (cases ss) auto
  have "parse_args_loop (concat (map option_args (fv # specs)) @ rest) Type a =
      parse_args_loop (flag_text (fst fv) # snd fv # (concat (map option_args specs) @ rest)) Type a"
    by (simp add: option_args_def)
  also have "\<dots> = parse_args_loop (concat (map option_args specs) @ rest) Type
      (a\<lparr>sigs := sigs a @ [sig]\<rparr>)"
    by (simp only: parse_args_loop_option b option.case)
  also have "\<dots> = parse_args_loop rest Type (a\<lparr>sigs := sigs a @ [sig]\<rparr>\<lparr>sigs := sigs (a\<lparr>sigs := sigs a @ [sig]\<rparr>) @ ss'\<rparr>)"
    by (rule Cons.IH [OF r])
  finally show ?case by (simp add: ss)
qed

lemma parse_args_loop_file:
  "\<not> is_flag path \<Longrightarrow>
   parse_args_loop [path] Type a = Some (Done, a\<lparr>file' := wstring_of path\<rparr>)"
  by (simp add: is_flag_def wcs_equal_def wstring_of_L_flags)

lemma parse_args_loop_dashes_file:
  "parse_args_loop [L ''--'', path] Type a = Some (Done, a\<lparr>file' := wstring_of path\<rparr>)"
  by (simp add: wcs_equal_def wstring_of_L_flags) (simp add: L_def)

lemma parse_args_options_file:
  assumes "map (\<lambda>fv. built_sig (fst fv) (snd fv)) specs = map Some ss" and "ss \<noteq> []"
    and "\<not> is_flag path"
  shows "parse_args (prog # concat (map option_args specs) @ [path]) =
     Some \<lparr>file' = wstring_of path, sigs = ss\<rparr>"
  using assms(2)
  by (simp add: parse_args_def parse_args_loop_options [OF assms(1)]
      parse_args_loop_file [OF assms(3)] del: parse_args_loop.simps)

lemma parse_args_options_dashes_file:
  assumes "map (\<lambda>fv. built_sig (fst fv) (snd fv)) specs = map Some ss" and "ss \<noteq> []"
  shows "parse_args (prog # concat (map option_args specs) @ [L ''--'', path]) =
     Some \<lparr>file' = wstring_of path, sigs = ss\<rparr>"
  using assms(2)
  by (simp add: parse_args_def parse_args_loop_options [OF assms(1)]
      parse_args_loop_dashes_file del: parse_args_loop.simps)

lemma L_flags_distinct:
  "L ''--pattern'' \<noteq> L ''--narrow''" "L ''--pattern'' \<noteq> L ''--wide''"
  "L ''--pattern'' \<noteq> L ''--widebe''" "L ''--pattern'' \<noteq> L ''--''"
  "L ''--narrow'' \<noteq> L ''--wide''" "L ''--narrow'' \<noteq> L ''--widebe''"
  "L ''--narrow'' \<noteq> L ''--''" "L ''--wide'' \<noteq> L ''--widebe''"
  "L ''--wide'' \<noteq> L ''--''" "L ''--widebe'' \<noteq> L ''--''"
  by (simp_all add: L_def)

lemma flag_of_Some: "flag_of f = Some fl \<Longrightarrow> wstring_of f = flag_text fl"
  by (auto simp: flag_of_def split: if_splits)

lemma flag_of_None_iff: "flag_of f = None \<longleftrightarrow> \<not> is_signature_flag f"
  by (auto simp: flag_of_def is_signature_flag_def)

lemma is_flag_iff: "is_flag x \<longleftrightarrow> is_signature_flag x \<or> wstring_of x = L ''--''"
  by (auto simp: is_flag_def is_signature_flag_def)

lemma parse_args_loop_Type_cong:
  "wstring_of f = wstring_of g \<Longrightarrow>
   parse_args_loop (f # rest) Type a = parse_args_loop (g # rest) Type a"
  by (simp add: wcs_equal_def)

lemma parse_args_loop_flag_of:
  assumes "flag_of f = Some fl"
  shows "parse_args_loop (f # v # rest) Type a =
     (case built_sig fl v of
        None \<Rightarrow> None
      | Some sig \<Rightarrow> parse_args_loop rest Type (a\<lparr>sigs := sigs a @ [sig]\<rparr>))"
proof -
  have "wstring_of f = wstring_of (flag_text fl)"
    using flag_of_Some [OF assms]
    by (cases fl rule: flag_text.cases) (simp_all add: wstring_of_L_flags)
  then have "parse_args_loop (f # v # rest) Type a =
      parse_args_loop (flag_text fl # v # rest) Type a"
    by (rule parse_args_loop_Type_cong)
  then show ?thesis by (simp only: parse_args_loop_option)
qed

lemma parse_args_loop_split:
  "parse_args_loop xs Type a =
     (case split_options xs of
        (opts, tail) \<Rightarrow>
          (case those (map (\<lambda>fv. built_sig (fst fv) (snd fv)) opts) of
             None \<Rightarrow> None
           | Some ss \<Rightarrow> parse_args_loop tail Type (a\<lparr>sigs := sigs a @ ss\<rparr>)))"
proof (induction xs arbitrary: a rule: split_options.induct)
  case (3 f v rest)
  show ?case
  proof (cases "flag_of f")
    case None
    then show ?thesis by (simp del: parse_args_loop.simps)
  next
    case (Some fl)
    obtain opts tail where sp: "split_options rest = (opts, tail)" by (cases "split_options rest")
    show ?thesis
    proof (cases "built_sig fl v")
      case None
      with Some sp show ?thesis
        by (simp add: parse_args_loop_flag_of del: parse_args_loop.simps)
    next
      case sig: (Some sig)
      have "parse_args_loop (f # v # rest) Type a =
          parse_args_loop rest Type (a\<lparr>sigs := sigs a @ [sig]\<rparr>)"
        using Some sig by (simp add: parse_args_loop_flag_of del: parse_args_loop.simps)
      also have "\<dots> =
          (case those (map (\<lambda>fv. built_sig (fst fv) (snd fv)) opts) of
             None \<Rightarrow> None
           | Some ss \<Rightarrow> parse_args_loop tail Type
               (a\<lparr>sigs := sigs a @ [sig]\<rparr>\<lparr>sigs := sigs (a\<lparr>sigs := sigs a @ [sig]\<rparr>) @ ss\<rparr>))"
        using "3.IH" [OF Some, of "a\<lparr>sigs := sigs a @ [sig]\<rparr>"] sp by simp
      finally show ?thesis
        using Some sig sp
        by (simp del: parse_args_loop.simps split: option.splits)
    qed
  qed
next
  case 1
  show ?case by simp
next
  case (2 v)
  show ?case by (simp del: parse_args_loop.simps)
qed

lemma split_options_tail:
  "split_options xs = (opts, f # v # rest) \<Longrightarrow> flag_of f = None"
proof (induction xs arbitrary: opts rule: split_options.induct)
  case (3 g w more)
  show ?case
  proof (cases "flag_of g")
    case None
    with "3.prems" show ?thesis by simp
  next
    case (Some fl)
    obtain o' t' where sp: "split_options more = (o', t')" by (cases "split_options more")
    with "3.prems" Some have "t' = f # v # rest" by simp
    with "3.IH" [OF Some] sp show ?thesis by simp
  qed
next
  case 1
  then show ?case by simp
next
  case (2 w)
  then show ?case by simp
qed

lemma split_options_tail_hd:
  assumes "split_options xs = (opts, tail)" and "2 \<le> length tail"
  shows "flag_of (hd tail) = None"
proof -
  from assms(2) obtain f v rest where "tail = f # v # rest"
    by (cases tail; cases "tl tail") auto
  with assms(1) split_options_tail show ?thesis by fastforce
qed

lemma split_options_last:
  "split_options xs = (opts, tail) \<Longrightarrow> tail \<noteq> [] \<Longrightarrow> last tail = last xs"
proof (induction xs arbitrary: opts rule: split_options.induct)
  case (3 g w more)
  show ?case
  proof (cases "flag_of g")
    case None
    with "3.prems" show ?thesis by auto
  next
    case (Some fl)
    obtain o' t' where sp: "split_options more = (o', t')" by (cases "split_options more")
    with "3.prems" Some have t: "t' = tail" by simp
    have "more \<noteq> []"
    proof
      assume "more = []"
      with sp t "3.prems"(2) show False by simp
    qed
    with "3.IH" [OF Some] sp t "3.prems"(2) show ?thesis by simp
  qed
next
  case 1
  then show ?case by simp
next
  case (2 w)
  then show ?case by auto
qed

lemma parse_args_loop_one:
  "\<not> is_flag x \<Longrightarrow> parse_args_loop (x # rest) Type a =
     parse_args_loop rest Done (a\<lparr>file' := wstring_of x\<rparr>)"
  by (simp add: is_flag_def wcs_equal_def wstring_of_L_flags)

lemma parse_args_loop_dashes:
  "wstring_of d = L ''--'' \<Longrightarrow> parse_args_loop (d # rest) Type a =
     parse_args_loop rest FileOnly a"
  by (simp add: wcs_equal_def wstring_of_L_flags L_flags_distinct [symmetric])

lemma parse_args_loop_only_flag:
  assumes "is_flag x"
  shows "\<exists>st. parse_args_loop [x] Type a = Some (st, a) \<and> st \<noteq> Done"
  using assms
  by (auto simp: is_flag_def wcs_equal_def wstring_of_L_flags)

lemma parse_args_loop_tail:
  assumes "2 \<le> length tail \<Longrightarrow> flag_of (hd tail) = None"
  shows "(file_of_tail tail = Some path \<longrightarrow>
            parse_args_loop tail Type a = Some (Done, a\<lparr>file' := path\<rparr>))
     \<and> (file_of_tail tail = None \<longrightarrow>
          parse_args_loop tail Type a = None \<or>
          (\<exists>st a'. parse_args_loop tail Type a = Some (st, a') \<and> st \<noteq> Done))"
proof (cases tail rule: file_of_tail.cases)
  case 1
  then show ?thesis by simp
next
  case (2 x)
  show ?thesis
  proof (cases "is_flag x")
    case True
    with 2 parse_args_loop_only_flag [OF True, of a] show ?thesis
      by (auto simp del: parse_args_loop.simps)
  next
    case False
    then have "parse_args_loop [x] Type a = Some (Done, a\<lparr>file' := wstring_of x\<rparr>)"
      by (rule parse_args_loop_file)
    with 2 False show ?thesis by (auto simp del: parse_args_loop.simps)
  qed
next
  case (3 d y)
  with assms have nf: "flag_of d = None" by simp
  show ?thesis
  proof (cases "wstring_of d = L ''--''")
    case True
    then have "parse_args_loop [d, y] Type a = parse_args_loop [y] FileOnly a"
      by (rule parse_args_loop_dashes)
    also have "\<dots> = Some (Done, a\<lparr>file' := wstring_of y\<rparr>)" by simp
    finally show ?thesis using 3 True by (auto simp del: parse_args_loop.simps)
  next
    case False
    with nf have "\<not> is_flag d" by (simp add: is_flag_iff flag_of_None_iff)
    then have "parse_args_loop [d, y] Type a = parse_args_loop [y] Done (a\<lparr>file' := wstring_of d\<rparr>)"
      by (rule parse_args_loop_one)
    also have "\<dots> = None" by simp
    finally show ?thesis using 3 False by (auto simp del: parse_args_loop.simps)
  qed
next
  case (4 d y z others)
  with assms have nf: "flag_of d = None" by simp
  show ?thesis
  proof (cases "wstring_of d = L ''--''")
    case True
    then have "parse_args_loop (d # y # z # others) Type a =
        parse_args_loop (y # z # others) FileOnly a"
      by (rule parse_args_loop_dashes)
    also have "\<dots> = None" by simp
    finally show ?thesis using 4 by (auto simp del: parse_args_loop.simps)
  next
    case False
    with nf have "\<not> is_flag d" by (simp add: is_flag_iff flag_of_None_iff)
    then have "parse_args_loop (d # y # z # others) Type a =
        parse_args_loop (y # z # others) Done (a\<lparr>file' := wstring_of d\<rparr>)"
      by (rule parse_args_loop_one)
    also have "\<dots> = None" by simp
    finally show ?thesis using 4 by (auto simp del: parse_args_loop.simps)
  qed
qed

lemma those_length: "those xs = Some ys \<Longrightarrow> length ys = length xs"
  by (induction xs arbitrary: ys) (auto split: option.splits)

lemma parse_args_cli_parse: "parse_args argv = cli_parse argv"
proof -
  let ?init = "\<lparr>file' = [], sigs = []\<rparr>"
  obtain opts tail where sp: "split_options (drop 1 argv) = (opts, tail)"
    by (cases "split_options (drop 1 argv)")
  show ?thesis
  proof (cases "those (map (\<lambda>fv. built_sig (fst fv) (snd fv)) opts)")
    case None
    then have "opts \<noteq> []" by auto
    with None sp show ?thesis
      by (simp add: parse_args_def cli_parse_def parse_args_loop_split del: parse_args_loop.simps)
  next
    case (Some ss)
    then have len: "length ss = length opts" using those_length by fastforce
    have loop: "parse_args_loop (drop 1 argv) Type ?init =
        parse_args_loop tail Type \<lparr>file' = [], sigs = ss\<rparr>"
      using Some sp by (simp add: parse_args_loop_split del: parse_args_loop.simps)
    have tl: "2 \<le> length tail \<Longrightarrow> flag_of (hd tail) = None"
      using split_options_tail_hd [OF sp] .
    note t = parse_args_loop_tail [of tail _ "\<lparr>file' = [], sigs = ss\<rparr>", OF tl]
    show ?thesis
    proof (cases "file_of_tail tail")
      case None
      with t have "parse_args_loop tail Type \<lparr>file' = [], sigs = ss\<rparr> = None \<or>
          (\<exists>st a'. parse_args_loop tail Type \<lparr>file' = [], sigs = ss\<rparr> = Some (st, a') \<and> st \<noteq> Done)"
        by blast
      then have "parse_args argv = None"
        unfolding parse_args_def loop by auto
      with None Some sp show ?thesis by (simp add: cli_parse_def)
    next
      case path: (Some path)
      with t [of path] have "parse_args_loop tail Type \<lparr>file' = [], sigs = ss\<rparr> =
          Some (Done, \<lparr>file' = path, sigs = ss\<rparr>)"
        by simp
      then have "parse_args argv = (if ss = [] then None else Some \<lparr>file' = path, sigs = ss\<rparr>)"
        unfolding parse_args_def loop by simp
      moreover have "ss = [] \<longleftrightarrow> opts = []" using len by auto
      ultimately show ?thesis using path Some sp by (simp add: cli_parse_def)
    qed
  qed
qed

lemma cli_parse_zero_signatures: "zero_signatures argv \<Longrightarrow> cli_parse argv = None"
  by (cases "split_options (drop 1 argv)") (simp add: zero_signatures_def cli_parse_def)

lemma lacks_file_no_file: "lacks_file tail \<Longrightarrow> file_of_tail tail = None"
  by (cases tail rule: lacks_file.cases) simp_all

lemma lacks_value_lacks_file: "lacks_value tail \<Longrightarrow> lacks_file tail"
  by (cases tail rule: lacks_value.cases) (simp_all add: is_flag_iff)

lemma cli_parse_missing_file: "missing_file argv \<Longrightarrow> cli_parse argv = None"
  by (cases "split_options (drop 1 argv)")
    (simp add: missing_file_def cli_parse_def lacks_file_no_file split: option.splits)

lemma cli_parse_flag_missing_value: "flag_missing_value argv \<Longrightarrow> cli_parse argv = None"
  by (cases "split_options (drop 1 argv)")
    (simp add: flag_missing_value_def cli_parse_def lacks_file_no_file lacks_value_lacks_file
      split: option.splits)

lemma file_of_tail_last: "file_of_tail tail = Some path \<Longrightarrow> tail \<noteq> [] \<and> path = wstring_of (last tail)"
  by (cases tail rule: file_of_tail.cases) (auto split: if_splits)

lemma cli_parse_Some:
  assumes "cli_parse argv = Some args"
  shows "sigs args \<noteq> [] \<and> 2 \<le> length argv \<and> file' args = wstring_of (last argv)"
proof -
  obtain opts tail where sp: "split_options (drop 1 argv) = (opts, tail)"
    by (cases "split_options (drop 1 argv)")
  from assms sp obtain ss path where o: "opts \<noteq> []"
    and ss: "those (map (\<lambda>fv. built_sig (fst fv) (snd fv)) opts) = Some ss"
    and p: "file_of_tail tail = Some path" and a: "args = \<lparr>file' = path, sigs = ss\<rparr>"
    by (auto simp: cli_parse_def split: if_splits option.splits)
  from ss have "length ss = length opts" using those_length by fastforce
  with o a have 1: "sigs args \<noteq> []" by auto
  from p have t: "tail \<noteq> []" and pl: "path = wstring_of (last tail)"
    using file_of_tail_last by blast+
  from split_options_last [OF sp t] have l: "last tail = last (drop 1 argv)" .
  have d: "drop 1 argv \<noteq> []"
  proof
    assume "drop 1 argv = []"
    with sp t show False by simp
  qed
  then have 2: "2 \<le> length argv" by (cases argv) (auto simp: Suc_le_eq)
  from d have "last (drop 1 argv) = last argv" by (cases argv) auto
  with l pl a have "file' args = wstring_of (last argv)" by simp
  with 1 2 show ?thesis by simp
qed

lemma print_counts_past_end: "length ss \<le> i \<Longrightarrow> print_counts data ss i out = out"
  by (subst print_counts.simps) (simp add: Let_def)

lemma print_counts_drop:
  "i < length ss \<Longrightarrow>
   print_counts data ss i out =
     out @ comma_separated (map (\<lambda>sig. printf_d (count_sig data sig)) (drop i ss)) @ [CHR 0x0A]"
proof (induction data ss i out rule: print_counts.induct)
  case (1 data ss i out)
  let ?show = "\<lambda>sig. printf_d (count_sig data sig)"
  have d: "drop i ss = ss ! i # drop (Suc i) ss"
    using "1.prems" by (simp add: Cons_nth_drop_Suc)
  show ?case
  proof (cases "i = length ss - 1")
    case True
    then have "drop (Suc i) ss = []" using "1.prems" by simp
    with d have "comma_separated (map ?show (drop i ss)) = ?show (ss ! i)" by simp
    moreover have "print_counts data ss i out =
        print_counts data ss (Suc i) (out @ ?show (ss ! i) @ [CHR 0x0A])"
      using "1.prems" True by (subst print_counts.simps) (simp add: Let_def)
    moreover have "length ss \<le> Suc i" using True by simp
    then have "print_counts data ss (Suc i) (out @ ?show (ss ! i) @ [CHR 0x0A]) =
        out @ ?show (ss ! i) @ [CHR 0x0A]"
      by (rule print_counts_past_end)
    ultimately show ?thesis by simp
  next
    case False
    with "1.prems" have lt: "Suc i < length ss" by simp
    then have "drop (Suc i) ss = ss ! Suc i # drop (Suc (Suc i)) ss"
      by (simp add: Cons_nth_drop_Suc)
    with d have c: "comma_separated (map ?show (drop i ss)) =
        ?show (ss ! i) @ '','' @ comma_separated (map ?show (drop (Suc i) ss))"
      by simp
    have "print_counts data ss i out = print_counts data ss (Suc i) (out @ ?show (ss ! i) @ '','')"
      using "1.prems" False by (subst print_counts.simps) (simp add: Let_def)
    also have "\<dots> = (out @ ?show (ss ! i) @ '','') @
        comma_separated (map ?show (drop (Suc i) ss)) @ [CHR 0x0A]"
      using "1.IH"(2) [OF refl "1.prems" refl False lt] .
    finally show ?thesis using c by simp
  qed
qed

lemma wmain_success:
  assumes "parse_args argv = Some args" and "fs (file' args) = Some data"
  shows "wmain fs argv =
     \<lparr>exit_code = 0,
      stdout = comma_separated (map (\<lambda>sig. printf_d (count_sig data sig)) (sigs args)) @ [CHR 0x0A],
      stderr = []\<rparr>"
proof -
  from assms(1) have "sigs args \<noteq> []"
    by (auto simp: parse_args_def split: option.splits if_splits)
  then have "print_counts data (sigs args) 0 [] =
      comma_separated (map (\<lambda>sig. printf_d (count_sig data sig)) (sigs args)) @ [CHR 0x0A]"
    by (simp add: print_counts_drop)
  with assms show ?thesis by (simp add: wmain_def read_all_def)
qed

lemma count_sig_empty: "count_sig buf [] = sint (of_nat (length buf) :: s32)"
  by (simp add: count_sig_def count_sig_loop_filter)

lemma count_sig_empty_small: "length buf < 2 ^ 31 \<Longrightarrow> count_sig buf [] = int (length buf)"
  by (simp only: count_sig_empty sint_of_nat_small)

section \<open>The counting rule\<close>



text \<open>
  C6: a signature longer than the buffer is counted 0 times.
\<close>

theorem count_sig_longer_signature:
  "length sig > length buf \<Longrightarrow> count_sig buf sig = 0"
proof -
  assume "length sig > length buf"
  then have "filter (matches_at buf sig) [0..<length buf] = []"
    by (auto simp: filter_empty_conv matches_at_def)
  then show ?thesis by (simp add: count_sig_filter)
qed

text \<open>The instance of C6 at a one-byte buffer and a two-cell signature.\<close>

theorem count_sig_longer_signature_witness:
  "length [(0x41, True), (0x41, True) :: cell] > length [0x41 :: u8]
   \<and> count_sig [0x41] [(0x41, True), (0x41, True)] = 0"
  using count_sig_longer_signature [of "[0x41]" "[(0x41, True), (0x41, True)]"] by simp

section \<open>Wildcard cells\<close>

text \<open>
  C9: the byte of a wildcard cell is never compared: two signatures that differ only in
  the bytes of their wildcard cells have the same count on every buffer, in particular
  after one wildcard cell's byte is replaced; and every wildcard cell that
  \<open>parse_sig\<close> returns stores 0.
\<close>

theorem wildcard_byte_never_compared:
  "(same_except_wildcard_bytes sig sig' \<longrightarrow> count_sig buf sig = count_sig buf sig')
   \<and> (i < length sig \<and> snd (sig ! i) = False
        \<longrightarrow> count_sig buf (sig[i := (b, False)]) = count_sig buf sig)
   \<and> (\<forall>cell \<in> set (parse_sig str). snd cell = False \<longrightarrow> fst cell = 0)"
proof (intro conjI impI)
  assume "same_except_wildcard_bytes sig sig'"
  then show "count_sig buf sig = count_sig buf sig'"
    by (rule count_sig_wildcard_bytes)
next
  assume "i < length sig \<and> snd (sig ! i) = False"
  then have "same_except_wildcard_bytes sig (sig[i := (b, False)])"
    by (simp add: same_except_wildcard_bytes_update)
  then show "count_sig buf (sig[i := (b, False)]) = count_sig buf sig"
    by (simp add: count_sig_wildcard_bytes)
next
  have "wildcards_zero (parse_sig str)" by (rule parse_sig_wildcards_zero)
  then show "\<forall>cell \<in> set (parse_sig str). snd cell = False \<longrightarrow> fst cell = 0"
    by (auto simp: wildcards_zero_def list_all_iff)
qed

text \<open>The instance of C9 at the signature \<open>41 ?\<close> with the wildcard byte replaced by 0x99.\<close>

theorem wildcard_byte_never_compared_witness:
  "same_except_wildcard_bytes [(0x41, True), (0, False)] [(0x41, True), (0x99, False)]
   \<and> count_sig [0x41, 0x07] [(0x41, True), (0, False)] =
       count_sig [0x41, 0x07] [(0x41, True), (0x99, False)]
   \<and> (1::nat) < length [(0x41, True), (0, False) :: cell]
   \<and> snd ([(0x41, True), (0, False) :: cell] ! 1) = False
   \<and> count_sig [0x41, 0x07] ([(0x41, True), (0, False)][1 := (0x99, False)]) =
       count_sig [0x41, 0x07] [(0x41, True), (0, False)]
   \<and> (0, False) \<in> set (parse_sig (L ''41 ?''))"
proof -
  have r: "same_except_wildcard_bytes [(0x41, True), (0, False)] [(0x41, True), (0x99, False)]"
    by (simp add: same_except_wildcard_bytes_def)
  have p: "parse_sig (L ''41 ?'') = [(0x41, True), (0, False)]"
    by (simp add: parse_sig_def L_def unhex_def isspace_def)
  have i: "(1::nat) < length [(0x41, True), (0, False) :: cell]
      \<and> snd ([(0x41, True), (0, False) :: cell] ! 1) = False"
    by simp
  from wildcard_byte_never_compared
      [of "[(0x41, True), (0, False)]" "[(0x41, True), (0x99, False)]" "[0x41, 0x07]" 1 "0x99"
          "L ''41 ?''"]
  have "count_sig [0x41, 0x07] [(0x41, True), (0, False)] =
          count_sig [0x41, 0x07] [(0x41, True), (0x99, False)]"
    and "count_sig [0x41, 0x07] ([(0x41, True), (0, False)][1 := (0x99, False)]) =
          count_sig [0x41, 0x07] [(0x41, True), (0, False)]"
    using r i by blast+
  with r i p show ?thesis by simp
qed

section \<open>The hex pattern compiler\<close>

text \<open>
  C2: \<open>parse_sig\<close> computes what the four-state machine of the specification computes on
  the characters of its argument: the cells the machine emits when it accepts, and the
  empty signature of \<^verbatim>\<open>return {}\<close> when it fails or ends in \<open>AfterFirst\<close>. A run of
  \<^verbatim>\<open>?\<close> characters in one token gives exactly one wildcard cell.
\<close>

theorem parse_sig_state_machine:
  "parse_sig str =
     (case compile_hex_pattern (wstring_of str) of None \<Rightarrow> [] | Some cells \<Rightarrow> cells)
   \<and> compile_hex_pattern (replicate (Suc n) 0x3F) = Some [(0, False)]
   \<and> parse_sig (replicate (Suc n) 0x3F) = [(0, False)]"
proof -
  have "wstring_of (replicate (Suc n) (0x3F :: wchar)) = replicate (Suc n) 0x3F"
    by (rule wstring_of_id) simp
  then have "parse_sig (replicate (Suc n) 0x3F) = [(0, False)]"
    using parse_sig_refines [of "replicate (Suc n) 0x3F"]
    by (simp only: compile_hex_pattern_question_marks option.case)
  then show ?thesis
    using parse_sig_refines compile_hex_pattern_question_marks by blast
qed

text \<open>
  The instance of C2 at the patterns \<^verbatim>\<open>12 34 ?? 78\<close>, which the machine accepts, and
  \<^verbatim>\<open>12 3\<close>, which ends in \<open>AfterFirst\<close>.
\<close>

theorem parse_sig_state_machine_witness:
  "parse_sig (L ''12 34 ?? 78'') = [(0x12, True), (0x34, True), (0, False), (0x78, True)]
   \<and> compile_hex_pattern (wstring_of (L ''12 34 ?? 78'')) =
       Some [(0x12, True), (0x34, True), (0, False), (0x78, True)]
   \<and> compile_hex_pattern (wstring_of (L ''12 3'')) = None
   \<and> parse_sig (L ''12 3'') = []
   \<and> parse_sig (replicate (Suc 2) 0x3F) = [(0, False)]"
proof -
  have a: "compile_hex_pattern (wstring_of (L ''12 34 ?? 78'')) =
       Some [(0x12, True), (0x34, True), (0, False), (0x78, True)]"
    by (simp add: compile_hex_pattern_def wstring_of_def L_def hex_digit_def isspace_def)
  have b: "compile_hex_pattern (wstring_of (L ''12 3'')) = None"
    by (simp add: compile_hex_pattern_def wstring_of_def L_def hex_digit_def isspace_def)
  show ?thesis
    using parse_sig_state_machine [of "L ''12 34 ?? 78''" 2]
      parse_sig_state_machine [of "L ''12 3''" 2] a b
    by simp
qed


text \<open>
  C5: \<open>parse_sig\<close> gives no signature for a text that is empty, that ends in a dangling
  single hex digit, or that has an unrecognized character at any position; the patterns
  \<^verbatim>\<open>1\<close>, the empty one and \<^verbatim>\<open>zz\<close> are such. Wherever the failing pattern is the
  value of \<^verbatim>\<open>--pattern\<close>, argument parsing fails and the program exits with code 1 and
  the usage message, printing no count.
\<close>

theorem parse_sig_failures:
  "(wstring_of e = [] \<longrightarrow> parse_sig e = [])
   \<and> (dangling_digit (wstring_of d) \<longrightarrow> parse_sig d = [])
   \<and> ((\<exists>c \<in> set (wstring_of u). unrecognized c) \<longrightarrow> parse_sig u = [])
   \<and> (parse_sig str = [] \<and>
        parse_args_loop pre Type \<lparr>file' = [], sigs = []\<rparr> = Some (ValuePattern, args)
        \<longrightarrow> parse_args (prog # pre @ str # rest) = None
          \<and> wmain fs (prog # pre @ str # rest) =
              \<lparr>exit_code = 1, stdout = [], stderr = [Usage (wstring_of prog)]\<rparr>)
   \<and> parse_sig (L ''1'') = [] \<and> parse_sig (L '''') = [] \<and> parse_sig (L ''zz'') = []"
proof (intro conjI impI)
  assume "wstring_of e = []"
  then show "parse_sig e = []"
    by (simp add: parse_sig_refines compile_hex_pattern_def)
next
  assume "dangling_digit (wstring_of d)"
  then show "parse_sig d = []"
    by (simp add: parse_sig_refines compile_hex_pattern_dangling)
next
  assume "\<exists>c \<in> set (wstring_of u). unrecognized c"
  then have "sm_run AfterSpace 0 (wstring_of u) = None"
    using sm_run_unrecognized by blast
  then show "parse_sig u = []"
    by (simp add: parse_sig_refines compile_hex_pattern_def)
next
  assume h: "parse_sig str = [] \<and>
        parse_args_loop pre Type \<lparr>file' = [], sigs = []\<rparr> = Some (ValuePattern, args)"
  then show n: "parse_args (prog # pre @ str # rest) = None"
    using parse_args_bad_pattern by blast
  then show "wmain fs (prog # pre @ str # rest) =
              \<lparr>exit_code = 1, stdout = [], stderr = [Usage (wstring_of prog)]\<rparr>"
    by (rule wmain_usage)
next
  show "parse_sig (L ''1'') = []"
    by (simp add: parse_sig_def L_def unhex_def isspace_def)
  show "parse_sig (L '''') = []"
    by (simp add: parse_sig_def L_def)
  show "parse_sig (L ''zz'') = []"
    by (simp add: parse_sig_def L_def unhex_def isspace_def)
qed

text \<open>
  The instance of C5 at the empty pattern, at \<^verbatim>\<open>41 4\<close>, at \<^verbatim>\<open>4g\<close>, and at the command
  line \<^verbatim>\<open>siggrep --pattern 1 f\<close>.
\<close>

theorem parse_sig_failures_witness:
  "wstring_of (L '''') = [] \<and> parse_sig (L '''') = []
   \<and> dangling_digit (wstring_of (L ''41 4'')) \<and> parse_sig (L ''41 4'') = []
   \<and> (\<exists>c \<in> set (wstring_of (L ''4g'')). unrecognized c) \<and> parse_sig (L ''4g'') = []
   \<and> parse_sig (L ''1'') = []
   \<and> parse_args_loop [L ''--pattern''] Type \<lparr>file' = [], sigs = []\<rparr> =
        Some (ValuePattern, \<lparr>file' = [], sigs = []\<rparr>)
   \<and> parse_args ([L ''siggrep''] @ [L ''--pattern''] @ [L ''1'', L ''f'']) = None
   \<and> wmain Map.empty ([L ''siggrep''] @ [L ''--pattern''] @ [L ''1'', L ''f'']) =
        \<lparr>exit_code = 1, stdout = [], stderr = [Usage (L ''siggrep'')]\<rparr>"
proof -
  have e: "wstring_of (L '''') = []"
    by (simp add: wstring_of_def L_def)
  have d: "dangling_digit (wstring_of (L ''41 4''))"
    by (simp add: dangling_digit_def wstring_of_def L_def hex_digit_def)
  have "unrecognized (of_nat (of_char (CHR ''g'')))"
    by (simp add: unrecognized_def hex_digit_def isspace_def)
  then have u: "\<exists>c \<in> set (wstring_of (L ''4g'')). unrecognized c"
    by (simp add: wstring_of_def L_def)
  have p: "parse_args_loop [L ''--pattern''] Type \<lparr>file' = [], sigs = []\<rparr> =
        Some (ValuePattern, \<lparr>file' = [], sigs = []\<rparr>)"
    by (simp add: wcs_equal_def)
  have w: "wstring_of (L ''siggrep'') = L ''siggrep''"
    by (simp add: wstring_of_def L_def)
  have one: "parse_sig (L ''1'') = []"
    by (simp add: parse_sig_def L_def unhex_def isspace_def)
  from parse_sig_failures [of "L ''''" "L ''41 4''" "L ''4g''" "L ''1''" "[L ''--pattern'']"
      "\<lparr>file' = [], sigs = []\<rparr>" "L ''siggrep''" "[L ''f'']" Map.empty]
  show ?thesis
    using e d u p w one by simp
qed

section \<open>The literal compiler\<close>

text \<open>
  C4: the three literal loops of \<open>parse_args\<close> compute \<^verbatim>\<open>compile_literal\<close> of the
  specification. Narrow gives one exact cell per character, holding its low byte, and fails
  exactly when some code point exceeds 255; WideLE gives two exact cells per character, low
  byte then high byte; WideBE gives two, high byte then low byte; no cell is a wildcard. The
  value of \<^verbatim>\<open>--narrow\<close>, \<^verbatim>\<open>--wide\<close> and \<^verbatim>\<open>--widebe\<close> is compiled this way.
\<close>

theorem compile_literal_refined:
  "narrow_loop ws [] = compile_literal ws Narrow
   \<and> Some (wide_loop ws []) = compile_literal ws WideLE
   \<and> Some (widebe_loop ws []) = compile_literal ws WideBE
   \<and> (narrow_loop ws [] = None \<longleftrightarrow> (\<exists>c \<in> set ws. 255 < unat c))
   \<and> (compile_literal ws e = Some sig \<longrightarrow>
        list_all snd sig \<and> length sig = (if e = Narrow then length ws else 2 * length ws))
   \<and> parse_args_loop (arg # argv) ValueNarrow args =
       (case compile_literal (wstring_of arg) Narrow of
          None \<Rightarrow> None
        | Some sig \<Rightarrow> parse_args_loop argv Type (args\<lparr>sigs := sigs args @ [sig]\<rparr>))
   \<and> parse_args_loop (arg # argv) ValueWide args =
       (case compile_literal (wstring_of arg) WideLE of
          None \<Rightarrow> None
        | Some sig \<Rightarrow> parse_args_loop argv Type (args\<lparr>sigs := sigs args @ [sig]\<rparr>))
   \<and> parse_args_loop (arg # argv) ValueWideBE args =
       (case compile_literal (wstring_of arg) WideBE of
          None \<Rightarrow> None
        | Some sig \<Rightarrow> parse_args_loop argv Type (args\<lparr>sigs := sigs args @ [sig]\<rparr>))"
proof (intro conjI)
  show "narrow_loop ws [] = compile_literal ws Narrow"
    by (rule narrow_loop_compile_literal)
  show "Some (wide_loop ws []) = compile_literal ws WideLE"
    by (rule wide_loop_compile_literal)
  show "Some (widebe_loop ws []) = compile_literal ws WideBE"
    by (rule widebe_loop_compile_literal)
  show "narrow_loop ws [] = None \<longleftrightarrow> (\<exists>c \<in> set ws. 255 < unat c)"
    by (simp add: narrow_loop_acc list_ex_iff)
  show "compile_literal ws e = Some sig \<longrightarrow>
        list_all snd sig \<and> length sig = (if e = Narrow then length ws else 2 * length ws)"
    using compile_literal_exact by blast
  show "parse_args_loop (arg # argv) ValueNarrow args =
       (case compile_literal (wstring_of arg) Narrow of
          None \<Rightarrow> None
        | Some sig \<Rightarrow> parse_args_loop argv Type (args\<lparr>sigs := sigs args @ [sig]\<rparr>))"
    by (simp add: narrow_loop_compile_literal del: compile_literal.simps)
  show "parse_args_loop (arg # argv) ValueWide args =
       (case compile_literal (wstring_of arg) WideLE of
          None \<Rightarrow> None
        | Some sig \<Rightarrow> parse_args_loop argv Type (args\<lparr>sigs := sigs args @ [sig]\<rparr>))"
    by (simp add: wide_loop_acc Let_def)
  show "parse_args_loop (arg # argv) ValueWideBE args =
       (case compile_literal (wstring_of arg) WideBE of
          None \<Rightarrow> None
        | Some sig \<Rightarrow> parse_args_loop argv Type (args\<lparr>sigs := sigs args @ [sig]\<rparr>))"
    by (simp add: widebe_loop_acc Let_def)
qed

text \<open>
  The instance of C4 at the literals \<^verbatim>\<open>AB\<close> and \<^verbatim>\<open>A\<close> of the specification and at
  the code point 0x0141, which has no narrow form.
\<close>

theorem compile_literal_refined_witness:
  "narrow_loop (L ''AB'') [] = Some [(0x41, True), (0x42, True)]
   \<and> wide_loop (L ''A'') [] = [(0x41, True), (0x00, True)]
   \<and> widebe_loop (L ''A'') [] = [(0x00, True), (0x41, True)]
   \<and> compile_literal [0x0141] WideLE = Some [(0x41, True), (0x01, True)]
   \<and> list_all snd [(0x41, True), (0x01, True) :: cell]
   \<and> length [(0x41, True), (0x01, True) :: cell] = 2 * length [0x0141 :: wchar]
   \<and> (\<exists>c \<in> set [0x41, 0x0141 :: wchar]. 255 < unat c)
   \<and> narrow_loop [0x41, 0x0141] [] = None"
proof -
  have a: "compile_literal (L ''AB'') Narrow = Some [(0x41, True), (0x42, True)]"
    by (simp add: L_def low_byte_def)
  have b: "compile_literal (L ''A'') WideLE = Some [(0x41, True), (0x00, True)]"
    by (simp add: L_def low_byte_def high_byte_def)
  have c: "compile_literal (L ''A'') WideBE = Some [(0x00, True), (0x41, True)]"
    by (simp add: L_def low_byte_def high_byte_def)
  have d: "compile_literal [0x0141] WideLE = Some [(0x41, True), (0x01, True)]"
    by (simp add: low_byte_def high_byte_def)
  have e: "\<exists>c \<in> set [0x41, 0x0141 :: wchar]. 255 < unat c"
    by simp
  from compile_literal_refined [of "L ''AB''"] a
  have 1: "narrow_loop (L ''AB'') [] = Some [(0x41, True), (0x42, True)]" by simp
  from compile_literal_refined [of "L ''A''"] b
  have 2: "wide_loop (L ''A'') [] = [(0x41, True), (0x00, True)]" by simp
  from compile_literal_refined [of "L ''A''"] c
  have 3: "widebe_loop (L ''A'') [] = [(0x00, True), (0x41, True)]" by simp
  from compile_literal_refined [of "[0x0141]" WideLE "[(0x41, True), (0x01, True)]"] d
  have 4: "list_all snd [(0x41, True), (0x01, True) :: cell]
      \<and> length [(0x41, True), (0x01, True) :: cell] = 2 * length [0x0141 :: wchar]"
    by simp
  from compile_literal_refined [of "[0x41, 0x0141]"] e
  have 5: "narrow_loop [0x41, 0x0141] [] = None" by blast
  from 1 2 3 4 5 d e show ?thesis by blast
qed

section \<open>The command line and the output\<close>

text \<open>
  C8: on a successful run the program exits with code 0 and standard output is one line:
  the counts of the signatures of \<open>args.sigs\<close>, in that order, in decimal, separated by
  commas with no trailing comma, ended by one newline. \<open>args.sigs\<close> holds the signatures
  of the options in the order of the command line, with or without \<^verbatim>\<open>--\<close> before the
  file. Two patterns that each occur once print \<^verbatim>\<open>1,1\<close> and a newline.
\<close>

theorem wmain_prints_counts_in_order:
  "(parse_args argv = Some args \<and> fs (file' args) = Some data \<longrightarrow>
      wmain fs argv =
        \<lparr>exit_code = 0,
         stdout = comma_separated (map (\<lambda>sig. printf_d (count_sig data sig)) (sigs args))
                    @ [CHR 0x0A],
         stderr = []\<rparr>)
   \<and> (map (\<lambda>fv. built_sig (fst fv) (snd fv)) specs = map Some ss \<and> ss \<noteq> [] \<and> \<not> is_flag path
        \<longrightarrow> parse_args (prog # concat (map option_args specs) @ [path]) =
              Some \<lparr>file' = wstring_of path, sigs = ss\<rparr>)
   \<and> (map (\<lambda>fv. built_sig (fst fv) (snd fv)) specs = map Some ss \<and> ss \<noteq> []
        \<longrightarrow> parse_args (prog # concat (map option_args specs) @ [L ''--'', path]) =
              Some \<lparr>file' = wstring_of path, sigs = ss\<rparr>)
   \<and> wmain sample_fs [L ''siggrep'', L ''--pattern'', L ''41'', L ''--pattern'', L ''42'', L ''f'']
        = \<lparr>exit_code = 0, stdout = ''1,1'' @ [CHR 0x0A], stderr = []\<rparr>"
proof (intro conjI impI)
  assume "parse_args argv = Some args \<and> fs (file' args) = Some data"
  then show "wmain fs argv =
        \<lparr>exit_code = 0,
         stdout = comma_separated (map (\<lambda>sig. printf_d (count_sig data sig)) (sigs args))
                    @ [CHR 0x0A],
         stderr = []\<rparr>"
    by (simp add: wmain_success)
next
  assume "map (\<lambda>fv. built_sig (fst fv) (snd fv)) specs = map Some ss \<and> ss \<noteq> [] \<and> \<not> is_flag path"
  then show "parse_args (prog # concat (map option_args specs) @ [path]) =
              Some \<lparr>file' = wstring_of path, sigs = ss\<rparr>"
    by (simp add: parse_args_options_file)
next
  assume "map (\<lambda>fv. built_sig (fst fv) (snd fv)) specs = map Some ss \<and> ss \<noteq> []"
  then show "parse_args (prog # concat (map option_args specs) @ [L ''--'', path]) =
              Some \<lparr>file' = wstring_of path, sigs = ss\<rparr>"
    by (simp add: parse_args_options_dashes_file)
next
  show "wmain sample_fs [L ''siggrep'', L ''--pattern'', L ''41'', L ''--pattern'', L ''42'', L ''f'']
        = \<lparr>exit_code = 0, stdout = ''1,1'' @ [CHR 0x0A], stderr = []\<rparr>"
    by code_simp
qed

text \<open>
  The instance of C8 at \<^verbatim>\<open>siggrep --pattern 41 --narrow B f\<close>, where \<^verbatim>\<open>f\<close> holds
  \<^verbatim>\<open>AB\<close>.
\<close>

theorem wmain_prints_counts_in_order_witness:
  "map (\<lambda>fv. built_sig (fst fv) (snd fv)) [(PatternFlag, L ''41''), (LiteralFlag Narrow, L ''B'')] =
     map Some [[(0x41, True)], [(0x42, True)]]
   \<and> \<not> is_flag (L ''f'')
   \<and> parse_args [L ''siggrep'', L ''--pattern'', L ''41'', L ''--narrow'', L ''B'', L ''f''] =
       Some \<lparr>file' = L ''f'', sigs = [[(0x41, True)], [(0x42, True)]]\<rparr>
   \<and> sample_fs (L ''f'') = Some [0x41, 0x42]
   \<and> wmain sample_fs [L ''siggrep'', L ''--pattern'', L ''41'', L ''--narrow'', L ''B'', L ''f''] =
       \<lparr>exit_code = 0, stdout = ''1,1'' @ [CHR 0x0A], stderr = []\<rparr>"
proof -
  let ?specs = "[(PatternFlag, L ''41''), (LiteralFlag Narrow, L ''B'')]"
  let ?ss = "[[(0x41, True)], [(0x42, True)]] :: Signature list"
  let ?argv = "[L ''siggrep'', L ''--pattern'', L ''41'', L ''--narrow'', L ''B'', L ''f'']"
  let ?args = "\<lparr>file' = L ''f'', sigs = ?ss\<rparr>"
  have b: "map (\<lambda>fv. built_sig (fst fv) (snd fv)) ?specs = map Some ?ss"
    by code_simp
  have f: "\<not> is_flag (L ''f'')"
    by code_simp
  have w: "wstring_of (L ''f'') = L ''f''"
    by code_simp
  have a: "L ''siggrep'' # concat (map option_args ?specs) @ [L ''f''] = ?argv"
    by (simp add: option_args_def)
  have s: "sample_fs (L ''f'') = Some [0x41, 0x42]"
    by code_simp
  have c: "comma_separated (map (\<lambda>sig. printf_d (count_sig [0x41, 0x42] sig)) ?ss) = ''1,1''"
    by code_simp
  have s': "sample_fs (file' ?args) = Some [0x41, 0x42]"
    using s by simp
  have c': "comma_separated (map (\<lambda>sig. printf_d (count_sig [0x41, 0x42] sig)) (sigs ?args)) = ''1,1''"
    using c by simp
  note t = wmain_prints_counts_in_order
    [of ?argv ?args sample_fs "[0x41, 0x42]" ?specs ?ss "L ''f''" "L ''siggrep''"]
  from t b f have "parse_args (L ''siggrep'' # concat (map option_args ?specs) @ [L ''f'']) =
      Some \<lparr>file' = wstring_of (L ''f''), sigs = ?ss\<rparr>"
    by blast
  then have p: "parse_args ?argv = Some ?args"
    by (simp only: a w)
  from t p s' have "wmain sample_fs ?argv =
      \<lparr>exit_code = 0,
       stdout = comma_separated (map (\<lambda>sig. printf_d (count_sig [0x41, 0x42] sig)) (sigs ?args))
                  @ [CHR 0x0A],
       stderr = []\<rparr>"
    by blast
  then have "wmain sample_fs ?argv =
      \<lparr>exit_code = 0, stdout = ''1,1'' @ [CHR 0x0A], stderr = []\<rparr>"
    by (simp only: c')
  with b f p s show ?thesis by blast
qed

text \<open>
  C7, as the code has it: a command line with zero signatures supplied, with a flag
  missing its value, or with a missing file argument is a usage error, that is
  \<open>parse_args\<close> fails and \<open>wmain\<close> exits with code 1, the usage message on standard
  error and nothing on standard output. \<open>parse_args\<close> accepts exactly the command lines
  the reading \<open>cli_parse\<close> accepts, so a line that parses has a signature and its last
  argument as the file. An unrecognized flag is not refused: an argument read where a flag
  is expected that is none of the five flags is the file path.
\<close>

theorem usage_errors:
  "parse_args argv = cli_parse argv
   \<and> (zero_signatures a1 \<longrightarrow> parse_args a1 = None)
   \<and> (flag_missing_value a2 \<longrightarrow> parse_args a2 = None)
   \<and> (missing_file a3 \<longrightarrow> parse_args a3 = None)
   \<and> (parse_args a4 = None \<longrightarrow>
        wmain fs a4 =
          \<lparr>exit_code = 1, stdout = [],
           stderr = [Usage (case a4 of [] \<Rightarrow> [] | prog # rest \<Rightarrow> wstring_of prog)]\<rparr>)
   \<and> (parse_args a5 = Some args \<longrightarrow>
        sigs args \<noteq> [] \<and> 2 \<le> length a5 \<and> file' args = wstring_of (last a5))
   \<and> (map (\<lambda>fv. built_sig (fst fv) (snd fv)) specs = map Some ss \<and> ss \<noteq> [] \<and> \<not> is_flag u
        \<longrightarrow> parse_args (prog # concat (map option_args specs) @ [u]) =
              Some \<lparr>file' = wstring_of u, sigs = ss\<rparr>)"
proof (intro conjI impI)
  show "parse_args argv = cli_parse argv"
    by (rule parse_args_cli_parse)
next
  assume "zero_signatures a1"
  then show "parse_args a1 = None"
    by (simp only: parse_args_cli_parse cli_parse_zero_signatures)
next
  assume "flag_missing_value a2"
  then show "parse_args a2 = None"
    by (simp only: parse_args_cli_parse cli_parse_flag_missing_value)
next
  assume "missing_file a3"
  then show "parse_args a3 = None"
    by (simp only: parse_args_cli_parse cli_parse_missing_file)
next
  assume "parse_args a4 = None"
  then show "wmain fs a4 =
          \<lparr>exit_code = 1, stdout = [],
           stderr = [Usage (case a4 of [] \<Rightarrow> [] | prog # rest \<Rightarrow> wstring_of prog)]\<rparr>"
    by (simp add: wmain_def)
next
  assume "parse_args a5 = Some args"
  then have c: "cli_parse a5 = Some args" by (simp only: parse_args_cli_parse)
  from cli_parse_Some [OF c] show "sigs args \<noteq> []" "2 \<le> length a5"
    "file' args = wstring_of (last a5)"
    by blast+
next
  assume "map (\<lambda>fv. built_sig (fst fv) (snd fv)) specs = map Some ss \<and> ss \<noteq> [] \<and> \<not> is_flag u"
  then show "parse_args (prog # concat (map option_args specs) @ [u]) =
              Some \<lparr>file' = wstring_of u, sigs = ss\<rparr>"
    by (simp add: parse_args_options_file)
qed

text \<open>
  The instance of C7 at command lines with no signature, with \<^verbatim>\<open>--wide\<close> and no value,
  with \<^verbatim>\<open>--\<close> and no file, at a line that parses, and with \<^verbatim>\<open>--foo\<close> as the last
  argument.
\<close>

theorem usage_errors_witness:
  "zero_signatures [L ''siggrep'', L ''f'']
   \<and> parse_args [L ''siggrep'', L ''f''] = None
   \<and> flag_missing_value [L ''siggrep'', L ''--pattern'', L ''41'', L ''--wide'']
   \<and> parse_args [L ''siggrep'', L ''--pattern'', L ''41'', L ''--wide''] = None
   \<and> missing_file [L ''siggrep'', L ''--pattern'', L ''41'', L ''--'']
   \<and> parse_args [L ''siggrep'', L ''--pattern'', L ''41'', L ''--''] = None
   \<and> wmain sample_fs [L ''siggrep'', L ''--pattern'', L ''41'', L ''--''] =
       \<lparr>exit_code = 1, stdout = [], stderr = [Usage (L ''siggrep'')]\<rparr>
   \<and> cli_parse [L ''siggrep'', L ''--pattern'', L ''41'', L ''f''] =
       Some \<lparr>file' = L ''f'', sigs = [[(0x41, True)]]\<rparr>
   \<and> parse_args [L ''siggrep'', L ''--pattern'', L ''41'', L ''f''] =
       Some \<lparr>file' = L ''f'', sigs = [[(0x41, True)]]\<rparr>
   \<and> \<not> is_flag (L ''--foo'')
   \<and> parse_args [L ''siggrep'', L ''--pattern'', L ''41'', L ''--foo''] =
       Some \<lparr>file' = L ''--foo'', sigs = [[(0x41, True)]]\<rparr>"
proof -
  let ?specs = "[(PatternFlag, L ''41'')]"
  let ?ss = "[[(0x41, True)]] :: Signature list"
  let ?a1 = "[L ''siggrep'', L ''f'']"
  let ?a2 = "[L ''siggrep'', L ''--pattern'', L ''41'', L ''--wide'']"
  let ?a3 = "[L ''siggrep'', L ''--pattern'', L ''41'', L ''--'']"
  let ?a5 = "[L ''siggrep'', L ''--pattern'', L ''41'', L ''f'']"
  let ?args = "\<lparr>file' = L ''f'', sigs = ?ss\<rparr>"
  note t = usage_errors [of ?a5 ?a1 ?a2 ?a3 ?a3 sample_fs ?a5 ?args ?specs ?ss "L ''--foo''"
      "L ''siggrep''"]
  have z: "zero_signatures ?a1" by code_simp
  have v: "flag_missing_value ?a2" by code_simp
  have m: "missing_file ?a3" by code_simp
  have c: "cli_parse ?a5 = Some ?args" by code_simp
  have b: "map (\<lambda>fv. built_sig (fst fv) (snd fv)) ?specs = map Some ?ss" by code_simp
  have nf: "\<not> is_flag (L ''--foo'')" by code_simp
  have w: "wstring_of (L ''siggrep'') = L ''siggrep''" "wstring_of (L ''--foo'') = L ''--foo''"
    by code_simp+
  have a: "L ''siggrep'' # concat (map option_args ?specs) @ [L ''--foo''] =
      [L ''siggrep'', L ''--pattern'', L ''41'', L ''--foo'']"
    by (simp add: option_args_def)
  from t z have 1: "parse_args ?a1 = None" by blast
  from t v have 2: "parse_args ?a2 = None" by blast
  from t m have 3: "parse_args ?a3 = None" by blast
  from t 3 have "wmain sample_fs ?a3 =
      \<lparr>exit_code = 1, stdout = [],
       stderr = [Usage (case ?a3 of [] \<Rightarrow> [] | prog # rest \<Rightarrow> wstring_of prog)]\<rparr>"
    by blast
  then have 4: "wmain sample_fs ?a3 =
      \<lparr>exit_code = 1, stdout = [], stderr = [Usage (L ''siggrep'')]\<rparr>"
    by (simp only: list.case w)
  from t have "parse_args ?a5 = cli_parse ?a5" by blast
  with c have 5: "parse_args ?a5 = Some ?args" by simp
  from t b nf have "parse_args (L ''siggrep'' # concat (map option_args ?specs) @ [L ''--foo'']) =
      Some \<lparr>file' = wstring_of (L ''--foo''), sigs = ?ss\<rparr>"
    by blast
  then have 6: "parse_args [L ''siggrep'', L ''--pattern'', L ''41'', L ''--foo''] =
      Some \<lparr>file' = L ''--foo'', sigs = ?ss\<rparr>"
    by (simp only: a w)
  from z 1 v 2 m 3 4 c 5 nf 6 show ?thesis by blast
qed

text \<open>
  C7 as the specification states it fails on \<^verbatim>\<open>siggrep --pattern 41 --foo\<close>: the
  unrecognized flag is taken as the file path, and with a file of that name the program
  exits with code 0 and prints a count.
\<close>

theorem unrecognized_flag_counterexample:
  "parse_args [L ''siggrep'', L ''--pattern'', L ''41'', L ''--foo''] =
     Some \<lparr>file' = L ''--foo'', sigs = [[(0x41, True)]]\<rparr>
   \<and> wmain sample_fs [L ''siggrep'', L ''--pattern'', L ''41'', L ''--foo''] =
       \<lparr>exit_code = 0, stdout = ''2'' @ [CHR 0x0A], stderr = []\<rparr>"
  by code_simp

text \<open>
  C10, as the code has it: the empty signature is counted \<open>length buf\<close> times in every
  buffer of fewer than \<open>2^31\<close> bytes; in general the count is \<open>length buf\<close> held in the
  32-bit \<^verbatim>\<open>int\<close>. The empty signature reaches \<open>count_sig\<close> from the command line: the
  empty value of \<^verbatim>\<open>--narrow\<close>, \<^verbatim>\<open>--wide\<close> or \<^verbatim>\<open>--widebe\<close> compiles to it, and the
  program then prints the length of the file.
\<close>

theorem count_sig_empty_signature:
  "(length buf < 2 ^ 31 \<longrightarrow> count_sig buf [] = int (length buf))
   \<and> count_sig buf [] = sint (of_nat (length buf) :: s32)
   \<and> built_sig (LiteralFlag e) [] = Some []
   \<and> parse_args [prog, flag_text (LiteralFlag e), [], L ''--'', path] =
       Some \<lparr>file' = wstring_of path, sigs = [[]]\<rparr>
   \<and> (fs (wstring_of path) = Some buf \<and> length buf < 2 ^ 31 \<longrightarrow>
        wmain fs [prog, flag_text (LiteralFlag e), [], L ''--'', path] =
          \<lparr>exit_code = 0, stdout = printf_d (int (length buf)) @ [CHR 0x0A], stderr = []\<rparr>)"
proof -
  have b: "built_sig (LiteralFlag e) [] = Some []"
    by (cases e) (simp_all add: wstring_of_def)
  then have m: "map (\<lambda>fv. built_sig (fst fv) (snd fv)) [(LiteralFlag e, [])] = map Some [[]]"
    by simp
  have "parse_args (prog # concat (map option_args [(LiteralFlag e, [])]) @ [L ''--'', path]) =
      Some \<lparr>file' = wstring_of path, sigs = [[]]\<rparr>"
    by (rule parse_args_options_dashes_file [OF m]) simp
  then have p: "parse_args [prog, flag_text (LiteralFlag e), [], L ''--'', path] =
      Some \<lparr>file' = wstring_of path, sigs = [[]]\<rparr>"
    by (simp add: option_args_def)
  have w: "fs (wstring_of path) = Some buf \<and> length buf < 2 ^ 31 \<Longrightarrow>
        wmain fs [prog, flag_text (LiteralFlag e), [], L ''--'', path] =
          \<lparr>exit_code = 0, stdout = printf_d (int (length buf)) @ [CHR 0x0A], stderr = []\<rparr>"
    using wmain_success [OF p, of fs buf] by (simp add: count_sig_empty_small)
  from b p w show ?thesis
    using count_sig_empty count_sig_empty_small by blast
qed

text \<open>
  The instance of C10 at \<^verbatim>\<open>siggrep --narrow "" -- f\<close>, where \<^verbatim>\<open>f\<close> holds two
  bytes.
\<close>

theorem count_sig_empty_signature_witness:
  "length [0x41, 0x42 :: u8] < 2 ^ 31
   \<and> count_sig [0x41, 0x42] [] = 2
   \<and> sample_fs (wstring_of (L ''f'')) = Some [0x41, 0x42]
   \<and> parse_args [L ''siggrep'', L ''--narrow'', [], L ''--'', L ''f''] =
       Some \<lparr>file' = L ''f'', sigs = [[]]\<rparr>
   \<and> wmain sample_fs [L ''siggrep'', L ''--narrow'', [], L ''--'', L ''f''] =
       \<lparr>exit_code = 0, stdout = ''2'' @ [CHR 0x0A], stderr = []\<rparr>"
proof -
  have l: "length [0x41, 0x42 :: u8] < 2 ^ 31"
    by simp
  have s: "sample_fs (wstring_of (L ''f'')) = Some [0x41, 0x42]"
    by code_simp
  have w: "wstring_of (L ''f'') = L ''f''"
    by code_simp
  have d: "printf_d (int (length [0x41, 0x42 :: u8])) = ''2''"
    by code_simp
  note t = count_sig_empty_signature [of "[0x41, 0x42]" Narrow "L ''siggrep''" "L ''f''" sample_fs]
  from t l have "count_sig [0x41, 0x42] [] = int (length [0x41, 0x42 :: u8])" by blast
  then have 1: "count_sig [0x41, 0x42] [] = 2" by simp
  from t have 2: "parse_args [L ''siggrep'', L ''--narrow'', [], L ''--'', L ''f''] =
       Some \<lparr>file' = L ''f'', sigs = [[]]\<rparr>"
    by (simp add: w)
  from t s l have "wmain sample_fs [L ''siggrep'', flag_text (LiteralFlag Narrow), [], L ''--'', L ''f''] =
       \<lparr>exit_code = 0, stdout = printf_d (int (length [0x41, 0x42 :: u8])) @ [CHR 0x0A], stderr = []\<rparr>"
    by blast
  then have 3: "wmain sample_fs [L ''siggrep'', L ''--narrow'', [], L ''--'', L ''f''] =
       \<lparr>exit_code = 0, stdout = ''2'' @ [CHR 0x0A], stderr = []\<rparr>"
    by (simp only: d flag_text.simps)
  from l 1 s 2 3 show ?thesis by blast
qed

text \<open>
  C10 as stated, for every buffer, fails on a buffer of \<open>2^31\<close> bytes: the count of the
  empty signature passes the largest \<^verbatim>\<open>int\<close> and the result is negative, not the
  length of the buffer.
\<close>

theorem count_sig_empty_signature_counterexample:
  "int (length (replicate (2 ^ 31) (0 :: u8))) = 2147483648
   \<and> count_sig (replicate (2 ^ 31) 0) [] = - 2147483648"
proof -
  have "count_sig (replicate (2 ^ 31) 0) [] =
      sint (of_nat (length (replicate (2 ^ 31) (0 :: u8))) :: s32)"
    by (rule count_sig_empty)
  also have "\<dots> = sint (of_nat (2 ^ 31) :: s32)"
    by (simp only: length_replicate)
  also have "\<dots> = - 2147483648"
    by simp
  finally have c: "count_sig (replicate (2 ^ 31) 0) [] = - 2147483648" .
  have "int (length (replicate (2 ^ 31) (0 :: u8))) = int (2 ^ 31)"
    by (simp only: length_replicate)
  also have "\<dots> = 2147483648"
    by simp
  finally show ?thesis using c by blast
qed

text \<open>
  C3 does not hold of the code: \<^verbatim>\<open>siggrep --narrow "" f\<close> is accepted with an empty
  signature in \<open>args.sigs\<close> and prints the length of the file, while the empty value of
  \<^verbatim>\<open>--pattern\<close> is refused.
\<close>

theorem empty_literal_accepted:
  "parse_args [L ''siggrep'', L ''--narrow'', L '''', L ''f''] =
     Some \<lparr>file' = L ''f'', sigs = [[]]\<rparr>
   \<and> wmain sample_fs [L ''siggrep'', L ''--narrow'', L '''', L ''f''] =
       \<lparr>exit_code = 0, stdout = ''2'' @ [CHR 0x0A], stderr = []\<rparr>
   \<and> parse_args [L ''siggrep'', L ''--pattern'', L '''', L ''f''] = None"
  by code_simp


end
